theory Spec2Isabelle
  imports Complex_Main
begin

section \<open>Model serialisation of gammapy: objects, store and records\<close>

text \<open>
  The development embeds \<^verbatim>\<open>gammapy/utils/serialization/io.py\<close>.
  Python objects that the code mutates or compares by identity live in an explicit store:
  a \<^verbatim>\<open>Parameter\<close> object is an address into \<open>params\<close>, a \<^verbatim>\<open>Parameters\<close>
  collection (the object holding the list \<^verbatim>\<open>.parameters\<close>) is an address into
  \<open>colls\<close>. Two references are the same object exactly when the addresses are equal.
  Parameter values are floats in the source; they are only copied and compared here. A
  float is a number or NaN, and Python's \<^verbatim>\<open>==\<close> is false whenever a side is NaN.
\<close>

type_synonym addr = nat

datatype pyfloat = Finite real | NaN

record parameter =
  p_name :: string
  p_value :: pyfloat
  p_unit :: string
  p_frozen :: bool

record store =
  params :: "addr \<Rightarrow> parameter"
  colls :: "addr \<Rightarrow> addr list"
  next_param :: addr
  next_coll :: addr

text \<open>An energy or value table of a spectral template: \<^verbatim>\<open>{"data": [...], "unit": str}\<close>.\<close>

record qdata =
  q_data :: "pyfloat list"
  q_unit :: string

text \<open>
  A spatial or spectral model object, or the body of any non-composite model: its class
  name (the type tag written by \<^verbatim>\<open>to_dict\<close>), the attribute \<^verbatim>\<open>filename\<close> (absent
  or \<^verbatim>\<open>None\<close> is \<open>None\<close>), the table of a template spectral model, and the
  \<^verbatim>\<open>Parameters\<close> collection it owns.
\<close>

record submodel =
  sm_class :: string
  sm_filename :: "string option"
  sm_table :: "(qdata \<times> qdata) option"
  sm_parameters :: addr

text \<open>
  A model of the list handed to \<^verbatim>\<open>models_to_dict\<close>: the composite
  \<^verbatim>\<open>SkyModel(name, spatial_model, spectral_model)\<close> with its own flat collection
  \<^verbatim>\<open>parameters\<close>, or an object of any other class with an optional attribute
  \<^verbatim>\<open>name\<close>.
\<close>

datatype model =
  SkyModel string submodel submodel addr
  | Model "string option" submodel

fun class_name :: "model \<Rightarrow> string" where
  "class_name (SkyModel n sp sc c) = ''SkyModel''"
| "class_name (Model n b) = sm_class b"

fun model_parameters :: "model \<Rightarrow> addr" where
  "model_parameters (SkyModel n sp sc c) = c"
| "model_parameters (Model n b) = sm_parameters b"

text \<open>\<^verbatim>\<open>getattr(model, "name", model.__class__.__name__)\<close>\<close>

fun model_name :: "model \<Rightarrow> string" where
  "model_name (SkyModel n sp sc c) = n"
| "model_name (Model n b) = (case n of Some x \<Rightarrow> x | None \<Rightarrow> sm_class b)"

text \<open>\<^verbatim>\<open>getattr(model, "filename", None)\<close>\<close>

fun model_filename :: "model \<Rightarrow> string option" where
  "model_filename (SkyModel n sp sc c) = None"
| "model_filename (Model n b) = sm_filename b"

datatype error =
  NotImplementedError
  | KeyError string
  | AttributeError string
  | TypeError
  | ValueError
  | IOError
  | UnboundLocalError string
  | IndexError

subsection \<open>The serialised records\<close>

text \<open>
  The components dict of the spec, section 6. A key that may be absent is an option.
\<close>

record param_dict =
  pd_name :: string
  pd_value :: pyfloat
  pd_unit :: string
  pd_frozen :: bool

record model_dict =
  md_type :: string
  md_filename :: "string option"
  md_energy :: "qdata option"
  md_values :: "qdata option"
  md_parameters :: "param_dict list"

record component =
  c_name :: string
  c_filename :: "string option"
  c_model :: "model_dict option"
  c_spatial :: "model_dict option"
  c_spectral :: "model_dict option"

text \<open>
  Python's \<^verbatim>\<open>==\<close> on the records: two dicts are equal when they have the same keys
  and equal values, lists are equal when they have the same length and equal elements,
  and a float equals a float when both are the same number. The records of two calls of
  \<^verbatim>\<open>to_dict\<close> hold floats computed anew, never one float object twice, so the
  comparison never takes the shortcut for identical objects and NaN differs from NaN.
\<close>

fun float_eq :: "pyfloat \<Rightarrow> pyfloat \<Rightarrow> bool" where
  "float_eq (Finite x) (Finite y) \<longleftrightarrow> x = y"
| "float_eq NaN y \<longleftrightarrow> False"
| "float_eq x NaN \<longleftrightarrow> False"

definition param_dict_eq :: "param_dict \<Rightarrow> param_dict \<Rightarrow> bool" where
  "param_dict_eq x y \<longleftrightarrow>
     pd_name x = pd_name y \<and> float_eq (pd_value x) (pd_value y) \<and>
     pd_unit x = pd_unit y \<and> pd_frozen x = pd_frozen y"

definition qdata_eq :: "qdata \<Rightarrow> qdata \<Rightarrow> bool" where
  "qdata_eq x y \<longleftrightarrow> list_all2 float_eq (q_data x) (q_data y) \<and> q_unit x = q_unit y"

definition model_dict_eq :: "model_dict \<Rightarrow> model_dict \<Rightarrow> bool" where
  "model_dict_eq x y \<longleftrightarrow>
     md_type x = md_type y \<and> md_filename x = md_filename y \<and>
     rel_option qdata_eq (md_energy x) (md_energy y) \<and>
     rel_option qdata_eq (md_values x) (md_values y) \<and>
     list_all2 param_dict_eq (md_parameters x) (md_parameters y)"

definition component_eq :: "component \<Rightarrow> component \<Rightarrow> bool" where
  "component_eq x y \<longleftrightarrow>
     c_name x = c_name y \<and> c_filename x = c_filename y \<and>
     rel_option model_dict_eq (c_model x) (c_model y) \<and>
     rel_option model_dict_eq (c_spatial x) (c_spatial y) \<and>
     rel_option model_dict_eq (c_spectral x) (c_spectral y)"

subsection \<open>Collaborators outside the source files\<close>

text \<open>
  What \<^verbatim>\<open>io.py\<close> calls but does not define is a parameter of the embedding:
  when the \<^verbatim>\<open>to_dict\<close> method of a model raises (for a selection and an object),
  the module namespaces \<^verbatim>\<open>gammapy.image.models\<close> and \<^verbatim>\<open>gammapy.spectrum.models\<close>
  looked up by \<^verbatim>\<open>getattr\<close>, and the unit parser \<^verbatim>\<open>u.Unit\<close>.
\<close>

datatype quantity = Scalar pyfloat string | Array "pyfloat list" string

text \<open>
  The keyword arguments \<^verbatim>\<open>**params\<close> of a constructor call: a dict in insertion order;
  an assignment to a key that is present replaces the value in place.
\<close>

type_synonym kwargs = "(string \<times> quantity) list"

fun dict_set :: "'k \<Rightarrow> 'v \<Rightarrow> ('k \<times> 'v) list \<Rightarrow> ('k \<times> 'v) list" where
  "dict_set k v [] = [(k, v)]"
| "dict_set k v (x # xs) = (if fst x = k then (k, v) # xs else x # dict_set k v xs)"

record model_class =
  init_error :: "kwargs \<Rightarrow> error option"
  read_error :: "string \<Rightarrow> error option"

record env =
  to_dict_error :: "string \<Rightarrow> submodel \<Rightarrow> error option"
  spatial :: "string \<rightharpoonup> model_class"
  spectral :: "string \<rightharpoonup> model_class"
  unit_ok :: "string \<Rightarrow> bool"

subsection \<open>Strings\<close>

text \<open>\<^verbatim>\<open>name.split("@")[0]\<close> and \<^verbatim>\<open>"@" in name\<close>\<close>

definition split_at :: "string \<Rightarrow> string" where
  "split_at n = takeWhile (\<lambda>c. c \<noteq> CHR ''@'') n"

definition has_at :: "string \<Rightarrow> bool" where
  "has_at n \<longleftrightarrow> CHR ''@'' \<in> set n"

text \<open>\<^verbatim>\<open>str(k)\<close> for a non-negative integer.\<close>

definition digit :: "nat \<Rightarrow> char" where
  "digit d = ''0123456789'' ! d"

fun str :: "nat \<Rightarrow> string" where
  "str n = (if n < 10 then [digit n] else str (n div 10) @ [digit (n mod 10)])"

declare str.simps [simp del]

section \<open>Serialisation\<close>

definition set_name :: "addr \<Rightarrow> string \<Rightarrow> store \<Rightarrow> store" where
  "set_name a n s = s\<lparr>params := (params s)(a := (params s a)\<lparr>p_name := n\<rparr>)\<rparr>"

text \<open>
  \<^verbatim>\<open>_rename_shared_parameters\<close>: the scan over every parameter of every model, with
  \<^verbatim>\<open>params_list\<close> and \<^verbatim>\<open>params_shared\<close>; membership is object identity.
\<close>

fun scan_params :: "addr list \<Rightarrow> addr list \<times> addr list \<Rightarrow> addr list \<times> addr list" where
  "scan_params [] acc = acc"
| "scan_params (a # as) (params_list, params_shared) =
     scan_params as
       (if a \<notin> set params_list then (params_list @ [a], params_shared)
        else if a \<notin> set params_shared then (params_list, params_shared @ [a])
        else (params_list, params_shared))"

fun scan_models :: "store \<Rightarrow> model list \<Rightarrow> addr list \<times> addr list \<Rightarrow> addr list \<times> addr list" where
  "scan_models s [] acc = acc"
| "scan_models s (m # ms) acc =
     scan_models s ms (scan_params (colls s (model_parameters m)) acc)"

text \<open>\<^verbatim>\<open>for k, param in enumerate(params_shared): param.name = param.name + "@shared_" + str(k)\<close>\<close>

fun rename_loop :: "nat \<Rightarrow> addr list \<Rightarrow> store \<Rightarrow> store" where
  "rename_loop k [] s = s"
| "rename_loop k (a # as) s =
     rename_loop (Suc k) as (set_name a (p_name (params s a) @ ''@shared_'' @ str k) s)"

definition rename_shared_parameters :: "model list \<Rightarrow> store \<Rightarrow> store" where
  "rename_shared_parameters models s =
     rename_loop 0 (snd (scan_models s models ([], []))) s"

text \<open>\<^verbatim>\<open>_restore_shared_parameters\<close>\<close>

fun restore_params :: "addr list \<Rightarrow> store \<Rightarrow> store" where
  "restore_params [] s = s"
| "restore_params (a # as) s =
     restore_params as (set_name a (split_at (p_name (params s a))) s)"

fun restore_shared_parameters :: "model list \<Rightarrow> store \<Rightarrow> store" where
  "restore_shared_parameters [] s = s"
| "restore_shared_parameters (m # ms) s =
     restore_shared_parameters ms (restore_params (colls s (model_parameters m)) s)"

text \<open>
  Modelled from the spec: the method \<^verbatim>\<open>to_dict(selection)\<close> of a spatial, spectral or
  background model, which is not in the source files. By section 6 of the spec the
  sub-record holds the type tag and one entry (name, value, unit, frozen) per parameter
  of the model's collection, in order; a template spectral model carries its energy and
  value tables. When the method raises is the parameter \<open>to_dict_error\<close>.
\<close>

definition param_to_dict :: "store \<Rightarrow> addr \<Rightarrow> param_dict" where
  "param_to_dict s a =
     \<lparr>pd_name = p_name (params s a), pd_value = p_value (params s a),
      pd_unit = p_unit (params s a), pd_frozen = p_frozen (params s a)\<rparr>"

definition to_dict :: "env \<Rightarrow> string \<Rightarrow> store \<Rightarrow> submodel \<Rightarrow> error + model_dict" where
  "to_dict E selection s b =
     (case to_dict_error E selection b of
        Some e \<Rightarrow> Inl e
      | None \<Rightarrow>
          Inr \<lparr>md_type = sm_class b, md_filename = None,
               md_energy = map_option fst (sm_table b),
               md_values = map_option snd (sm_table b),
               md_parameters = map (param_to_dict s) (colls s (sm_parameters b))\<rparr>)"

text \<open>
  \<^verbatim>\<open>_model_to_dict\<close>. An object whose class is named \<^verbatim>\<open>SkyModel\<close> but has no
  attribute \<^verbatim>\<open>spatial_model\<close> raises \<^verbatim>\<open>AttributeError\<close>.
\<close>

definition model_to_dict :: "env \<Rightarrow> string \<Rightarrow> store \<Rightarrow> model \<Rightarrow> error + component" where
  "model_to_dict E selection s m =
     (let data = \<lparr>c_name = model_name m, c_filename = model_filename m,
                  c_model = None, c_spatial = None, c_spectral = None\<rparr>
      in if class_name m = ''SkyModel'' then
           (case m of
              SkyModel n sp sc c \<Rightarrow>
                (case to_dict E selection s sp of
                   Inl e \<Rightarrow> Inl e
                 | Inr dsp \<Rightarrow>
                     (let dsp' = (case sm_filename sp of
                                    Some f \<Rightarrow> dsp\<lparr>md_filename := Some f\<rparr>
                                  | None \<Rightarrow> dsp)
                      in case to_dict E selection s sc of
                           Inl e \<Rightarrow> Inl e
                         | Inr dsc \<Rightarrow>
                             Inr (data\<lparr>c_spatial := Some dsp', c_spectral := Some dsc\<rparr>)))
            | Model n b \<Rightarrow> Inl (AttributeError ''spatial_model''))
         else
           (case m of
              Model n b \<Rightarrow>
                (case to_dict E selection s b of
                   Inl e \<Rightarrow> Inl e
                 | Inr d \<Rightarrow> Inr (data\<lparr>c_model := Some d\<rparr>))
            | SkyModel n sp sc c \<Rightarrow> Inl (AttributeError ''to_dict'')))"

text \<open>
  The loop of \<^verbatim>\<open>models_to_dict\<close>. The test \<^verbatim>\<open>model_data not in models_data\<close>
  compares the new record with every record of the list by \<^verbatim>\<open>==\<close>.
\<close>

fun to_dict_loop ::
  "env \<Rightarrow> string \<Rightarrow> store \<Rightarrow> model list \<Rightarrow> component list \<Rightarrow> error + component list" where
  "to_dict_loop E selection s [] models_data = Inr models_data"
| "to_dict_loop E selection s (m # ms) models_data =
     (case model_to_dict E selection s m of
        Inl e \<Rightarrow> Inl e
      | Inr model_data \<Rightarrow>
          to_dict_loop E selection s ms
            (if \<not> list_ex (\<lambda>d. component_eq d model_data) models_data
             then models_data @ [model_data]
             else models_data))"

text \<open>
  \<^verbatim>\<open>models_to_dict\<close> returns the list under the key \<^verbatim>\<open>"components"\<close>, or raises;
  in both cases it leaves a store behind. A raise inside the loop leaves the function at
  once, so the restoring pass does not run.
\<close>

definition models_to_dict ::
  "env \<Rightarrow> model list \<Rightarrow> string \<Rightarrow> store \<Rightarrow> (error + component list) \<times> store" where
  "models_to_dict E models selection s =
     (let s1 = rename_shared_parameters models s
      in case to_dict_loop E selection s1 models [] of
           Inl e \<Rightarrow> (Inl e, s1)
         | Inr models_data \<Rightarrow> (Inr models_data, restore_shared_parameters models s1))"

section \<open>De-serialisation\<close>

text \<open>A new \<^verbatim>\<open>Parameter\<close> object and a new \<^verbatim>\<open>Parameters\<close> collection take the next free address.\<close>

definition new_parameter :: "parameter \<Rightarrow> store \<Rightarrow> addr \<times> store" where
  "new_parameter p s =
     (next_param s,
      s\<lparr>params := (params s)(next_param s := p), next_param := Suc (next_param s)\<rparr>)"

definition new_collection :: "addr list \<Rightarrow> store \<Rightarrow> addr \<times> store" where
  "new_collection as s =
     (next_coll s,
      s\<lparr>colls := (colls s)(next_coll s := as), next_coll := Suc (next_coll s)\<rparr>)"

text \<open>
  Modelled from the spec: \<^verbatim>\<open>Parameters.from_dict(item)\<close>, which is not in the source
  files. By sections 4.2 and 6 of the spec each entry of \<^verbatim>\<open>item["parameters"]\<close> becomes
  a parameter object of its own with the recorded name (the shared suffix included: the
  linking pass reads it), value, unit and frozen flag, in the order of the record.
\<close>

fun params_from_dict :: "param_dict list \<Rightarrow> store \<Rightarrow> addr list \<times> store" where
  "params_from_dict [] s = ([], s)"
| "params_from_dict (x # xs) s =
     (let (a, s1) = new_parameter \<lparr>p_name = pd_name x, p_value = pd_value x,
                                   p_unit = pd_unit x, p_frozen = pd_frozen x\<rparr> s;
          (as, s2) = params_from_dict xs s1
      in (a # as, s2))"

definition from_dict :: "model_dict \<Rightarrow> store \<Rightarrow> addr \<times> store" where
  "from_dict item s =
     (let (as, s1) = params_from_dict (md_parameters item) s in new_collection as s1)"

text \<open>
  The dict comprehension
  \<^verbatim>\<open>{x["name"].split("@")[0]: x["value"] * u.Unit(x["unit"]) for x in item["parameters"]}\<close>:
  a later entry of the same key replaces the earlier one; a unit string that does not
  parse raises.
\<close>

fun keyword_params ::
  "env \<Rightarrow> param_dict list \<Rightarrow> kwargs \<Rightarrow> error + kwargs" where
  "keyword_params E [] kw = Inr kw"
| "keyword_params E (x # xs) kw =
     (if unit_ok E (pd_unit x)
      then keyword_params E xs
             (dict_set (split_at (pd_name x)) (Scalar (pd_value x) (pd_unit x)) kw)
      else Inl ValueError)"

text \<open>
  \<^verbatim>\<open>getattr(module, item["type"])(**params)\<close>: the lookup in the module namespace, then
  the call of the class.
\<close>

definition construct ::
  "(string \<rightharpoonup> model_class) \<Rightarrow> string \<Rightarrow> kwargs \<Rightarrow> error option" where
  "construct namespace type kw =
     (case namespace type of
        None \<Rightarrow> Some (AttributeError type)
      | Some cls \<Rightarrow> init_error cls kw)"

text \<open>\<^verbatim>\<open>getattr(module, item["type"]).read(item["filename"])\<close>\<close>

definition read_model ::
  "(string \<rightharpoonup> model_class) \<Rightarrow> string \<Rightarrow> string \<Rightarrow> error option" where
  "read_model namespace type filename =
     (case namespace type of
        None \<Rightarrow> Some (AttributeError type)
      | Some cls \<Rightarrow> read_error cls filename)"

text \<open>The spatial half of \<^verbatim>\<open>_dict_to_skymodel\<close>.\<close>

definition dict_to_spatial :: "env \<Rightarrow> model_dict \<Rightarrow> store \<Rightarrow> error + (submodel \<times> store)" where
  "dict_to_spatial E item s =
     (case md_filename item of
        Some filename \<Rightarrow>
          (case read_model (spatial E) (md_type item) filename of
             Some e \<Rightarrow> Inl e
           | None \<Rightarrow>
               (let (c, s1) = from_dict item s
                in Inr (\<lparr>sm_class = md_type item, sm_filename = Some filename,
                          sm_table = None, sm_parameters = c\<rparr>, s1)))
      | None \<Rightarrow>
          (case keyword_params E (md_parameters item) [] of
             Inl e \<Rightarrow> Inl e
           | Inr kw \<Rightarrow>
               (case construct (spatial E) (md_type item) kw of
                  Some e \<Rightarrow> Inl e
                | None \<Rightarrow>
                    (let (c, s1) = from_dict item s
                     in Inr (\<lparr>sm_class = md_type item, sm_filename = None,
                               sm_table = None, sm_parameters = c\<rparr>, s1)))))"

text \<open>
  The spectral half. With the key \<^verbatim>\<open>"energy"\<close> the class is called with the two
  tables; \<^verbatim>\<open>u.Quantity(data, unit)\<close> parses the unit, and a missing key
  \<^verbatim>\<open>"values"\<close> raises \<^verbatim>\<open>KeyError\<close>.
\<close>

definition dict_to_spectral :: "env \<Rightarrow> model_dict \<Rightarrow> store \<Rightarrow> error + (submodel \<times> store)" where
  "dict_to_spectral E item s =
     (case md_energy item of
        Some energy \<Rightarrow>
          (if \<not> unit_ok E (q_unit energy) then Inl ValueError
           else case md_values item of
                  None \<Rightarrow> Inl (KeyError ''values'')
                | Some vals \<Rightarrow>
                    (if \<not> unit_ok E (q_unit vals) then Inl ValueError
                     else case construct (spectral E) (md_type item)
                                 [(''energy'', Array (q_data energy) (q_unit energy)),
                                  (''values'', Array (q_data vals) (q_unit vals))] of
                            Some e \<Rightarrow> Inl e
                          | None \<Rightarrow>
                              (let (c, s1) = from_dict item s
                               in Inr (\<lparr>sm_class = md_type item, sm_filename = None,
                                         sm_table = Some (energy, vals),
                                         sm_parameters = c\<rparr>, s1))))
      | None \<Rightarrow>
          (case keyword_params E (md_parameters item) [] of
             Inl e \<Rightarrow> Inl e
           | Inr kw \<Rightarrow>
               (case construct (spectral E) (md_type item) kw of
                  Some e \<Rightarrow> Inl e
                | None \<Rightarrow>
                    (let (c, s1) = from_dict item s
                     in Inr (\<lparr>sm_class = md_type item, sm_filename = None,
                               sm_table = None, sm_parameters = c\<rparr>, s1)))))"

text \<open>
  Modelled from the spec: the constructor \<^verbatim>\<open>SkyModel(name, spatial_model, spectral_model)\<close>,
  which is not in the source files. The composite model has a parameter collection of
  its own (section 4.1 of the spec: the linking pass replaces a parameter in the model's
  own collection and in the nested spatial or spectral collection too), holding the
  spatial parameters followed by the spectral parameters.
\<close>

definition new_SkyModel :: "string \<Rightarrow> submodel \<Rightarrow> submodel \<Rightarrow> store \<Rightarrow> model \<times> store" where
  "new_SkyModel n spatial_model spectral_model s =
     (let (c, s1) = new_collection (colls s (sm_parameters spatial_model) @
                                    colls s (sm_parameters spectral_model)) s
      in (SkyModel n spatial_model spectral_model c, s1))"

text \<open>\<^verbatim>\<open>_dict_to_skymodel\<close>\<close>

definition dict_to_skymodel :: "env \<Rightarrow> component \<Rightarrow> store \<Rightarrow> error + (model \<times> store)" where
  "dict_to_skymodel E model s =
     (case c_spatial model of
        None \<Rightarrow> Inl (KeyError ''spatial'')
      | Some item \<Rightarrow>
          (case dict_to_spatial E item s of
             Inl e \<Rightarrow> Inl e
           | Inr (spatial_model, s1) \<Rightarrow>
               (case c_spectral model of
                  None \<Rightarrow> Inl (KeyError ''spectral'')
                | Some item' \<Rightarrow>
                    (case dict_to_spectral E item' s1 of
                       Inl e \<Rightarrow> Inl e
                     | Inr (spectral_model, s2) \<Rightarrow>
                         Inr (new_SkyModel (c_name model) spatial_model spectral_model s2)))))"

subsection \<open>Linking of shared parameters\<close>

text \<open>
  \<^verbatim>\<open>names\<close> of a collection, \<^verbatim>\<open>list.index\<close> (the first position; it is only called
  on a name that is in the list), and the assignment \<^verbatim>\<open>parameters[ind] = new_param\<close>.
\<close>

definition names :: "store \<Rightarrow> addr \<Rightarrow> string list" where
  "names s c = map (\<lambda>a. p_name (params s a)) (colls s c)"

fun index_of :: "'a \<Rightarrow> 'a list \<Rightarrow> nat" where
  "index_of x [] = 0"
| "index_of x (y # ys) = (if x = y then 0 else Suc (index_of x ys))"

definition set_coll :: "addr \<Rightarrow> nat \<Rightarrow> addr \<Rightarrow> store \<Rightarrow> store" where
  "set_coll c ind a s = s\<lparr>colls := (colls s)(c := (colls s c)[ind := a])\<rparr>"

text \<open>
  The body of the inner loop of \<^verbatim>\<open>_link_shared_parameters\<close> for the parameter at
  position \<open>i\<close> of \<^verbatim>\<open>model.parameters\<close>, on the store and \<^verbatim>\<open>shared_register\<close>.
\<close>

definition link_step ::
  "model \<Rightarrow> nat \<Rightarrow> store \<times> (string \<rightharpoonup> addr) \<Rightarrow> store \<times> (string \<rightharpoonup> addr)" where
  "link_step model i st =
     (let s = fst st; shared_register = snd st;
          param = colls s (model_parameters model) ! i;
          name = p_name (params s param)
      in if has_at name then
           (case shared_register name of
              Some new_param \<Rightarrow>
                (let ind = index_of name (names s (model_parameters model));
                     s1 = set_coll (model_parameters model) ind new_param s
                 in case model of
                      SkyModel n spatial_model spectral_model c \<Rightarrow>
                        (let spatial_params = sm_parameters spatial_model;
                             spectral_params = sm_parameters spectral_model
                         in if name \<in> set (names s1 spatial_params) then
                              (set_coll spatial_params
                                 (index_of name (names s1 spatial_params)) new_param s1,
                               shared_register)
                            else if name \<in> set (names s1 spectral_params) then
                              (set_coll spectral_params
                                 (index_of name (names s1 spectral_params)) new_param s1,
                               shared_register)
                            else (s1, shared_register))
                    | Model n b \<Rightarrow> (s1, shared_register))
            | None \<Rightarrow>
                (set_name param (split_at name) s, shared_register(name \<mapsto> param)))
         else st)"

text \<open>
  \<^verbatim>\<open>for param in model.parameters\<close> walks the list by position and reads it as it is at
  that moment, so a replacement made by an earlier step is seen.
\<close>

function link_params ::
  "model \<Rightarrow> nat \<Rightarrow> store \<times> (string \<rightharpoonup> addr) \<Rightarrow> store \<times> (string \<rightharpoonup> addr)" where
  "link_params model i st =
     (if i < length (colls (fst st) (model_parameters model))
      then link_params model (Suc i) (link_step model i st)
      else st)"
  by pat_completeness auto
termination
  by (relation "measure (\<lambda>(model, i, st). length (colls (fst st) (model_parameters model)) - i)")
    (auto simp: link_step_def set_coll_def set_name_def Let_def
      split: option.splits model.splits)

declare link_params.simps [simp del]

fun link_models ::
  "model list \<Rightarrow> store \<times> (string \<rightharpoonup> addr) \<Rightarrow> store \<times> (string \<rightharpoonup> addr)" where
  "link_models [] st = st"
| "link_models (model # models) st = link_models models (link_params model 0 st)"

definition link_shared_parameters :: "model list \<Rightarrow> store \<Rightarrow> store" where
  "link_shared_parameters models s = fst (link_models models (s, Map.empty))"

subsection \<open>The list of models\<close>

text \<open>The loop of \<^verbatim>\<open>dict_to_models\<close> over \<^verbatim>\<open>data["components"]\<close>.\<close>

fun dict_to_models_loop ::
  "env \<Rightarrow> component list \<Rightarrow> model list \<Rightarrow> store \<Rightarrow> error + (model list \<times> store)" where
  "dict_to_models_loop E [] models s = Inr (models, s)"
| "dict_to_models_loop E (model # rest) models s =
     (case c_model model of
        Some d \<Rightarrow>
          (if md_type d = ''BackgroundModel'' then dict_to_models_loop E rest models s
           else Inl NotImplementedError)
      | None \<Rightarrow>
          (case dict_to_skymodel E model s of
             Inl e \<Rightarrow> Inl e
           | Inr (m, s1) \<Rightarrow> dict_to_models_loop E rest (models @ [m]) s1))"

definition dict_to_models ::
  "env \<Rightarrow> component list \<Rightarrow> bool \<Rightarrow> store \<Rightarrow> error + (model list \<times> store)" where
  "dict_to_models E data link s =
     (case dict_to_models_loop E data [] s of
        Inl e \<Rightarrow> Inl e
      | Inr (models, s1) \<Rightarrow>
          Inr (models, if link then link_shared_parameters models s1 else s1))"

section \<open>Auxiliary notions and example inputs\<close>

text \<open>The parameter objects that the two passes over the models visit.\<close>

definition scanned :: "store \<Rightarrow> model list \<Rightarrow> addr set" where
  "scanned s ms = (\<Union>m\<in>set ms. set (colls s (model_parameters m)))"

text \<open>
  An example environment: \<^verbatim>\<open>to_dict\<close> rejects a selection other than \<^verbatim>\<open>"all"\<close> and
  \<^verbatim>\<open>"simple"\<close>, the two model classes of the end-to-end scenario exist and accept any
  keywords, every unit string parses.
\<close>

definition any_class :: model_class where
  "any_class = \<lparr>init_error = (\<lambda>kw. None), read_error = (\<lambda>f. None)\<rparr>"

definition env_ex :: env where
  "env_ex =
     \<lparr>to_dict_error = (\<lambda>selection b.
         if selection = ''all'' \<or> selection = ''simple'' then None else Some ValueError),
      spatial = [''PointSpatialModel'' \<mapsto> any_class],
      spectral = [''PowerLawSpectralModel'' \<mapsto> any_class],
      unit_ok = (\<lambda>u. True)\<rparr>"

text \<open>
  An example environment whose classes have fixed signatures: a point source takes
  \<^verbatim>\<open>lon_0\<close> and \<^verbatim>\<open>lat_0\<close> and may take \<^verbatim>\<open>frame\<close>; every argument of a power law
  (\<^verbatim>\<open>index\<close>, \<^verbatim>\<open>amplitude\<close>, \<^verbatim>\<open>reference\<close>) has a default. A call with a keyword that
  is no argument, or without a required one, raises \<^verbatim>\<open>TypeError\<close>.
\<close>

definition signature_error :: "string list \<Rightarrow> string list \<Rightarrow> kwargs \<Rightarrow> error option" where
  "signature_error required optional kw =
     (if list_all (\<lambda>k. k \<in> set (required @ optional)) (map fst kw)
         \<and> list_all (\<lambda>k. k \<in> set (map fst kw)) required
      then None else Some TypeError)"

definition point_class :: model_class where
  "point_class =
     \<lparr>init_error = signature_error [''lon_0'', ''lat_0''] [''frame''],
      read_error = (\<lambda>f. None)\<rparr>"

definition power_law_class :: model_class where
  "power_law_class =
     \<lparr>init_error = signature_error [] [''index'', ''amplitude'', ''reference''],
      read_error = (\<lambda>f. None)\<rparr>"

definition env_fixed :: env where
  "env_fixed =
     env_ex\<lparr>spatial := [''PointSpatialModel'' \<mapsto> point_class],
            spectral := [''PowerLawSpectralModel'' \<mapsto> power_law_class]\<rparr>"

text \<open>Two background models whose collections hold one and the same parameter object.\<close>

definition bkg_body :: "addr \<Rightarrow> submodel" where
  "bkg_body c = \<lparr>sm_class = ''BackgroundModel'', sm_filename = None, sm_table = None,
                 sm_parameters = c\<rparr>"

definition store_norm :: "string \<Rightarrow> store" where
  "store_norm n =
     \<lparr>params = (\<lambda>a. \<lparr>p_name = n, p_value = Finite 1, p_unit = [], p_frozen = False\<rparr>),
      colls = (\<lambda>c. [0]), next_param = 1, next_coll = 2\<rparr>"

definition two_backgrounds :: "model list" where
  "two_backgrounds = [Model (Some ''bkg1'') (bkg_body 0), Model (Some ''bkg2'') (bkg_body 1)]"

text \<open>The record of a background model with one parameter of value 1.\<close>

definition bkg_record :: "string \<Rightarrow> string \<Rightarrow> component" where
  "bkg_record n pn =
     \<lparr>c_name = n, c_filename = None,
      c_model = Some \<lparr>md_type = ''BackgroundModel'', md_filename = None,
                       md_energy = None, md_values = None,
                       md_parameters = [\<lparr>pd_name = pn, pd_value = Finite 1, pd_unit = [],
                                         pd_frozen = False\<rparr>]\<rparr>,
      c_spatial = None, c_spectral = None\<rparr>"

text \<open>
  No value that \<^verbatim>\<open>to_dict\<close> writes for the model is NaN: the parameter values of the
  collections it serialises and the entries of a template's tables.
\<close>

definition finite_sub :: "store \<Rightarrow> submodel \<Rightarrow> bool" where
  "finite_sub s b \<longleftrightarrow>
     list_all (\<lambda>a. p_value (params s a) \<noteq> NaN) (colls s (sm_parameters b)) \<and>
     (case sm_table b of
        None \<Rightarrow> True
      | Some (e, v) \<Rightarrow> NaN \<notin> set (q_data e) \<and> NaN \<notin> set (q_data v))"

fun nan_free :: "store \<Rightarrow> model \<Rightarrow> bool" where
  "nan_free s (SkyModel n sp sc c) \<longleftrightarrow> finite_sub s sp \<and> finite_sub s sc"
| "nan_free s (Model n b) \<longleftrightarrow> finite_sub s b"

text \<open>No record of the list compares equal to a later one.\<close>

fun unique_records :: "component list \<Rightarrow> bool" where
  "unique_records [] \<longleftrightarrow> True"
| "unique_records (x # xs) \<longleftrightarrow> \<not> list_ex (\<lambda>y. component_eq x y) xs \<and> unique_records xs"

text \<open>The store of the background models with a norm that is NaN, and the record of it.\<close>

definition store_nan :: store where
  "store_nan =
     \<lparr>params = (\<lambda>a. \<lparr>p_name = ''norm'', p_value = NaN, p_unit = [], p_frozen = False\<rparr>),
      colls = (\<lambda>c. [0]), next_param = 1, next_coll = 2\<rparr>"

definition nan_record :: component where
  "nan_record =
     \<lparr>c_name = ''bkg1'', c_filename = None,
      c_model = Some \<lparr>md_type = ''BackgroundModel'', md_filename = None,
                       md_energy = None, md_values = None,
                       md_parameters = [\<lparr>pd_name = ''norm@shared_0'', pd_value = NaN,
                                         pd_unit = [], pd_frozen = False\<rparr>]\<rparr>,
      c_spatial = None, c_spectral = None\<rparr>"

text \<open>One model object at two positions of the list.\<close>

definition same_twice :: "model list" where
  "same_twice = [Model (Some ''bkg1'') (bkg_body 0), Model (Some ''bkg1'') (bkg_body 0)]"

text \<open>Two model objects (they own different collections) with equal name, type and parameters.\<close>

definition equal_twins :: "model list" where
  "equal_twins = [Model (Some ''bkg'') (bkg_body 0), Model (Some ''bkg'') (bkg_body 1)]"

text \<open>
  A record of a non-composite model of a type other than \<^verbatim>\<open>BackgroundModel\<close>, and a
  composite record whose spatial type is not a name of \<^verbatim>\<open>gammapy.image.models\<close>.
\<close>

definition plain_dict :: "string \<Rightarrow> param_dict list \<Rightarrow> model_dict" where
  "plain_dict type ps =
     \<lparr>md_type = type, md_filename = None, md_energy = None, md_values = None,
      md_parameters = ps\<rparr>"

definition unsupported_record :: component where
  "unsupported_record =
     \<lparr>c_name = ''cube'', c_filename = None, c_model = Some (plain_dict ''SkyDiffuseCube'' []),
      c_spatial = None, c_spectral = None\<rparr>"

definition unknown_spatial_record :: component where
  "unknown_spatial_record =
     \<lparr>c_name = ''s'', c_filename = None, c_model = None,
      c_spatial = Some (plain_dict ''Nope'' []),
      c_spectral = Some (plain_dict ''PowerLawSpectralModel'' [])\<rparr>"

text \<open>The name that the linking pass reads at position \<open>i\<close> of a model's collection.\<close>

definition cur_name :: "model \<Rightarrow> nat \<Rightarrow> store \<Rightarrow> string" where
  "cur_name m i s = p_name (params s (colls s (model_parameters m) ! i))"

text \<open>The nested collections of a composite model, and all collections of a model.\<close>

fun nested :: "model \<Rightarrow> addr list" where
  "nested (SkyModel n sp sc c) = [sm_parameters sp, sm_parameters sc]"
| "nested (Model n b) = []"

definition all_colls :: "model \<Rightarrow> addr list" where
  "all_colls m = model_parameters m # nested m"

text \<open>No parameter of the model carries the marker.\<close>

definition clean_model :: "store \<Rightarrow> model \<Rightarrow> bool" where
  "clean_model s m \<longleftrightarrow> list_all (\<lambda>a. \<not> has_at (p_name (params s a))) (colls s (model_parameters m))"

text \<open>Position \<open>k\<close> of collection \<open>c\<close> holds the object \<open>a\<close>, whose state is \<open>p\<close>.\<close>

definition kept :: "store \<Rightarrow> addr \<Rightarrow> nat \<Rightarrow> addr \<Rightarrow> parameter \<Rightarrow> bool" where
  "kept s c k a p \<longleftrightarrow> k < length (colls s c) \<and> colls s c ! k = a \<and> params s a = p"

text \<open>
  The flat collection of a composite model lists the spatial parameters, then the
  spectral parameters, as its constructor leaves it.
\<close>

fun sky_consistent :: "store \<Rightarrow> model \<Rightarrow> bool" where
  "sky_consistent s (SkyModel n sp sc c) \<longleftrightarrow>
     colls s c = colls s (sm_parameters sp) @ colls s (sm_parameters sc)"
| "sky_consistent s (Model n b) \<longleftrightarrow> True"

text \<open>The parameter object that \<^verbatim>\<open>Parameters.from_dict\<close> makes of one entry.\<close>

definition mk_param :: "param_dict \<Rightarrow> parameter" where
  "mk_param x = \<lparr>p_name = pd_name x, p_value = pd_value x, p_unit = pd_unit x, p_frozen = pd_frozen x\<rparr>"

text \<open>
  Bookkeeping of the store while models are built: a later store extends an earlier one
  when it keeps every object allocated so far; a model is owned by a store when its
  collections and their parameters are allocated in it.
\<close>

definition extends :: "store \<Rightarrow> store \<Rightarrow> bool" where
  "extends s s' \<longleftrightarrow>
     next_coll s \<le> next_coll s' \<and> next_param s \<le> next_param s' \<and>
     (\<forall>c<next_coll s. colls s' c = colls s c) \<and>
     (\<forall>a<next_param s. params s' a = params s a)"

definition owned :: "store \<Rightarrow> model \<Rightarrow> bool" where
  "owned s m \<longleftrightarrow>
     list_all (\<lambda>c. c < next_coll s \<and> list_all (\<lambda>a. a < next_param s) (colls s c)) (all_colls m)"

text \<open>A composite model that holds what a record says: name, types and parameter entries.\<close>

fun rebuilt :: "store \<Rightarrow> model \<Rightarrow> component \<Rightarrow> bool" where
  "rebuilt s (SkyModel n sp sc c) r \<longleftrightarrow>
     n = c_name r \<and> c_model r = None \<and>
     map_option md_type (c_spatial r) = Some (sm_class sp) \<and>
     map_option md_parameters (c_spatial r) =
       Some (map (param_to_dict s) (colls s (sm_parameters sp))) \<and>
     map_option md_type (c_spectral r) = Some (sm_class sc) \<and>
     map_option md_parameters (c_spectral r) =
       Some (map (param_to_dict s) (colls s (sm_parameters sc)))"
| "rebuilt s (Model n b) r \<longleftrightarrow> False"

text \<open>
  Models that share no collection, and whose own collections hold pairwise different
  parameter objects: the state in which \<^verbatim>\<open>dict_to_models\<close> hands them to the linking pass.
\<close>

definition fresh_models :: "store \<Rightarrow> model list \<Rightarrow> bool" where
  "fresh_models s ms \<longleftrightarrow>
     distinct (concat (map all_colls ms)) \<and>
     distinct (concat (map (\<lambda>m. colls s (model_parameters m)) ms))"

text \<open>The models built so far from the composite records \<open>rs\<close>, in order.\<close>

definition built :: "store \<Rightarrow> model list \<Rightarrow> component list \<Rightarrow> bool" where
  "built s ms rs \<longleftrightarrow>
     fresh_models s ms \<and> list_all (owned s) ms \<and> list_all (sky_consistent s) ms \<and>
     list_all2 (rebuilt s) ms rs"

text \<open>
  The components list of the end-to-end scenario of the spec. The entries that the spec
  leaves open are parameters: the spatial entries, the frozen flag of the index and the
  spectral entries after the index.
\<close>

definition index_entry :: "bool \<Rightarrow> param_dict" where
  "index_entry fr = \<lparr>pd_name = ''index'', pd_value = Finite 2, pd_unit = [], pd_frozen = fr\<rparr>"

definition scenario :: "param_dict list \<Rightarrow> bool \<Rightarrow> param_dict list \<Rightarrow> component list" where
  "scenario spatial_entries fr rest =
     [\<lparr>c_name = ''src'', c_filename = None, c_model = None,
       c_spatial = Some (plain_dict ''PointSpatialModel'' spatial_entries),
       c_spectral = Some (plain_dict ''PowerLawSpectralModel'' (index_entry fr # rest))\<rparr>]"

text \<open>Entries of a point source with a power law, as gammapy writes them.\<close>

definition entry :: "string \<Rightarrow> real \<Rightarrow> string \<Rightarrow> param_dict" where
  "entry n v u = \<lparr>pd_name = n, pd_value = Finite v, pd_unit = u, pd_frozen = False\<rparr>"

definition point_entries :: "param_dict list" where
  "point_entries = [entry ''lon_0'' 0 ''deg'', entry ''lat_0'' 0 ''deg'']"

definition power_law_rest :: "param_dict list" where
  "power_law_rest = [entry ''amplitude'' 1 ''cm-2 s-1 TeV-1'', entry ''reference'' 1 ''TeV'']"

text \<open>The keyword arguments that the comprehension builds from these entries.\<close>

definition point_kwargs :: kwargs where
  "point_kwargs = [(''lon_0'', Scalar (Finite 0) ''deg''), (''lat_0'', Scalar (Finite 0) ''deg'')]"

definition power_law_kwargs :: kwargs where
  "power_law_kwargs =
     [(''index'', Scalar (Finite 2) []), (''amplitude'', Scalar (Finite 1) ''cm-2 s-1 TeV-1''),
      (''reference'', Scalar (Finite 1) ''TeV'')]"

text \<open>
  A rebuilt composite model agrees with an original one: the name, the types of the
  spatial and the spectral model, and the entries (name, value, unit, frozen) of the
  parameters of the nested collections and of the model's own collection.
\<close>

fun same_content :: "store \<Rightarrow> model \<Rightarrow> store \<Rightarrow> model \<Rightarrow> bool" where
  "same_content s (SkyModel n sp sc c) s' (SkyModel n' sp' sc' c') \<longleftrightarrow>
     n' = n \<and> sm_class sp' = sm_class sp \<and> sm_class sc' = sm_class sc \<and>
     map (param_to_dict s') (colls s' (sm_parameters sp')) =
       map (param_to_dict s) (colls s (sm_parameters sp)) \<and>
     map (param_to_dict s') (colls s' (sm_parameters sc')) =
       map (param_to_dict s) (colls s (sm_parameters sc)) \<and>
     map (param_to_dict s') (colls s' c') = map (param_to_dict s) (colls s c)"
| "same_content s (SkyModel n sp sc c) s' (Model n' b') \<longleftrightarrow> False"
| "same_content s (Model n b) s' m' \<longleftrightarrow> False"

fun is_sky :: "model \<Rightarrow> bool" where
  "is_sky (SkyModel n sp sc c) \<longleftrightarrow> True"
| "is_sky (Model n b) \<longleftrightarrow> False"

text \<open>
  Two composite models, each with no spatial parameter and one spectral parameter. In
  \<open>sky_store n shared\<close> every parameter object has the name \<open>n\<close>, object 2 has value 1
  and every other object has value 2; the first model holds object 2, the second model
  holds object 3, or object 2 as well when the two models share their parameter.
\<close>

definition sub :: "string \<Rightarrow> addr \<Rightarrow> submodel" where
  "sub type c = \<lparr>sm_class = type, sm_filename = None, sm_table = None, sm_parameters = c\<rparr>"

definition sky :: "string \<Rightarrow> addr \<Rightarrow> addr \<Rightarrow> addr \<Rightarrow> model" where
  "sky n c1 c2 c3 =
     SkyModel n (sub ''PointSpatialModel'' c1) (sub ''PowerLawSpectralModel'' c2) c3"

definition sky_store :: "string \<Rightarrow> bool \<Rightarrow> store" where
  "sky_store n shared =
     \<lparr>params = (\<lambda>x. \<lparr>p_name = n, p_value = Finite (if x = 2 then 1 else 2), p_unit = [],
                       p_frozen = False\<rparr>),
      colls = (\<lambda>c. if c = 3 \<or> c = 4 then [2]
                   else if c = 6 \<or> c = 7 then [if shared then 2 else 3] else []),
      next_param = 4, next_coll = 8\<rparr>"

definition sky_pair :: "string \<Rightarrow> string \<Rightarrow> model list" where
  "sky_pair n1 n2 = [sky n1 2 3 4, sky n2 5 6 7]"

text \<open>The record of such a model whose parameter has the name \<open>pn\<close> and the value \<open>v\<close>.\<close>

definition sky_record :: "string \<Rightarrow> string \<Rightarrow> real \<Rightarrow> component" where
  "sky_record n pn v =
     \<lparr>c_name = n, c_filename = None, c_model = None,
      c_spatial = Some (plain_dict ''PointSpatialModel'' []),
      c_spectral = Some (plain_dict ''PowerLawSpectralModel''
                           [\<lparr>pd_name = pn, pd_value = Finite v, pd_unit = [], pd_frozen = False\<rparr>])\<rparr>"

text \<open>
  The full cycle \<^verbatim>\<open>dict_to_models(models_to_dict(models, selection))\<close> with the default
  \<^verbatim>\<open>link=True\<close>, and the parameter entries of a collection in its result.
\<close>

definition round_trip ::
  "env \<Rightarrow> model list \<Rightarrow> string \<Rightarrow> store \<Rightarrow> error + (model list \<times> store)" where
  "round_trip E models selection s =
     (case fst (models_to_dict E models selection s) of
        Inl e \<Rightarrow> Inl e
      | Inr data \<Rightarrow> dict_to_models E data True (snd (models_to_dict E models selection s)))"

definition entries_of :: "model list \<times> store \<Rightarrow> addr \<Rightarrow> param_dict list" where
  "entries_of r c = map (param_to_dict (snd r)) (colls (snd r) c)"

text \<open>The stores of the example after reading two records and after linking them.\<close>

definition one_read :: "store \<Rightarrow> string \<Rightarrow> real \<Rightarrow> store" where
  "one_read s pn v =
     s\<lparr>params := (params s)
               (next_param s := \<lparr>p_name = pn, p_value = Finite v, p_unit = [], p_frozen = False\<rparr>),
             colls := (colls s)(next_coll s := [], Suc (next_coll s) := [next_param s],
                                Suc (Suc (next_coll s)) := [next_param s]),
             next_param := Suc (next_param s), next_coll := next_coll s + 3\<rparr>"

definition two_read :: "store \<Rightarrow> string \<Rightarrow> real \<Rightarrow> string \<Rightarrow> real \<Rightarrow> store" where
  "two_read s pn1 v1 pn2 v2 =
     s\<lparr>params := (params s)
          (4 := \<lparr>p_name = pn1, p_value = Finite v1, p_unit = [], p_frozen = False\<rparr>,
           5 := \<lparr>p_name = pn2, p_value = Finite v2, p_unit = [], p_frozen = False\<rparr>),
        colls := (colls s)(8 := [], 9 := [4], 10 := [4], 11 := [], 12 := [5], 13 := [5]),
        next_param := 6, next_coll := 14\<rparr>"

definition two_linked :: "store \<Rightarrow> string \<Rightarrow> real \<Rightarrow> real \<Rightarrow> store" where
  "two_linked s pn v1 v2 =
     set_coll 12 0 4 (set_coll 13 0 4 (set_name 4 (split_at pn) (two_read s pn v1 pn v2)))"

text \<open>
  The state of the linking pass after the positions \<open>D\<close> of the models' own collections
  have been visited, for models that were handed over in the store \<open>s0\<close>: no list has
  changed its length; a registered object has no marker in its name; a visited position
  whose name had the marker holds the object registered under that name; every other
  position holds its object and name of before.
\<close>

definition link_inv ::
  "store \<Rightarrow> model list \<Rightarrow> (model \<times> nat) set \<Rightarrow> store \<times> (string \<rightharpoonup> addr) \<Rightarrow> bool" where
  "link_inv s0 ms D st \<longleftrightarrow>
     (\<forall>c. length (colls (fst st) c) = length (colls s0 c)) \<and>
     (\<forall>n a. snd st n = Some a \<longrightarrow> \<not> has_at (p_name (params (fst st) a))) \<and>
     (\<forall>m\<in>set ms. \<forall>i<length (colls s0 (model_parameters m)).
        if (m, i) \<in> D \<and> has_at (cur_name m i s0)
        then snd st (cur_name m i s0) = Some (colls (fst st) (model_parameters m) ! i)
        else colls (fst st) (model_parameters m) ! i = colls s0 (model_parameters m) ! i
             \<and> cur_name m i (fst st) = cur_name m i s0)"

section \<open>Properties\<close>

subsection \<open>Names across a call of the serialiser\<close>

lemma split_at_append_at: "split_at (n @ CHR ''@'' # r) = split_at n"
  by (induction n) (simp_all add: split_at_def)

lemma split_at_no_at: "\<not> has_at n \<Longrightarrow> split_at n = n"
  by (induction n) (auto simp: split_at_def has_at_def)

lemma not_has_at_split [simp]: "\<not> has_at (split_at n)"
  by (induction n) (auto simp: split_at_def has_at_def)

lemma split_at_idem [simp]: "split_at (split_at n) = split_at n"
  by (simp add: split_at_no_at)

lemma colls_set_name [simp]: "colls (set_name a n s) = colls s"
  by (simp add: set_name_def)

lemma params_set_name: "params (set_name a n s) b = (if b = a then (params s a)\<lparr>p_name := n\<rparr> else params s b)"
  by (simp add: set_name_def)

lemma colls_rename_loop [simp]: "colls (rename_loop k as s) = colls s"
  by (induction as arbitrary: k s) simp_all

lemma rename_loop_split:
  "split_at (p_name (params (rename_loop k as s) b)) = split_at (p_name (params s b))"
proof (induction as arbitrary: k s)
  case Nil
  show ?case by simp
next
  case (Cons a as)
  have "split_at (p_name (params s a) @ ''@shared_'' @ str k) = split_at (p_name (params s a))"
    using split_at_append_at [of "p_name (params s a)" "''shared_'' @ str k"] by simp
  then show ?case
    by (simp add: Cons.IH params_set_name)
qed

lemma rename_loop_outside:
  "b \<notin> set as \<Longrightarrow> params (rename_loop k as s) b = params s b"
  by (induction as arbitrary: k s) (auto simp: params_set_name)

lemma colls_restore_params [simp]: "colls (restore_params as s) = colls s"
  by (induction as arbitrary: s) simp_all

lemma restore_params_name:
  "p_name (params (restore_params as s) b) =
     (if b \<in> set as then split_at (p_name (params s b)) else p_name (params s b))"
  by (induction as arbitrary: s) (auto simp: params_set_name)

lemma colls_restore [simp]: "colls (restore_shared_parameters ms s) = colls s"
  by (induction ms arbitrary: s) simp_all

lemma restore_name:
  "p_name (params (restore_shared_parameters ms s) b) =
     (if b \<in> scanned s ms then split_at (p_name (params s b)) else p_name (params s b))"
  by (induction ms arbitrary: s) (auto simp: restore_params_name scanned_def)

lemma scan_params_shared: "set (snd (scan_params as acc)) \<subseteq> set (snd acc) \<union> set as"
  by (induction as acc rule: scan_params.induct) auto

lemma scan_models_shared: "set (snd (scan_models s ms acc)) \<subseteq> set (snd acc) \<union> scanned s ms"
proof (induction ms arbitrary: acc)
  case Nil
  show ?case by simp
next
  case (Cons m ms)
  show ?case
    using Cons.IH [of "scan_params (colls s (model_parameters m)) acc"]
      scan_params_shared [of "colls s (model_parameters m)" acc]
    by (auto simp: scanned_def)
qed

text \<open>
  Claim C3, as the code has it. When \<^verbatim>\<open>models_to_dict\<close> returns normally and no
  parameter reachable through the models had the marker \<^verbatim>\<open>@\<close> in its name before
  the call, every parameter object of the store has its name of before the call.
\<close>

theorem models_to_dict_restores_names:
  assumes ok: "models_to_dict E models selection s = (Inr models_data, s')"
    and clean: "\<forall>m\<in>set models. \<forall>a\<in>set (colls s (model_parameters m)).
                  \<not> has_at (p_name (params s a))"
  shows "p_name (params s' a) = p_name (params s a)"
proof -
  define s1 where "s1 = rename_shared_parameters models s"
  have s': "s' = restore_shared_parameters models s1"
    using ok by (auto simp: models_to_dict_def Let_def s1_def split: sum.splits)
  have c1: "colls s1 = colls s"
    by (simp add: s1_def rename_shared_parameters_def)
  then have sc: "scanned s1 models = scanned s models"
    by (simp add: scanned_def)
  have sp: "split_at (p_name (params s1 a)) = split_at (p_name (params s a))"
    by (simp add: s1_def rename_shared_parameters_def rename_loop_split)
  show ?thesis
  proof (cases "a \<in> scanned s models")
    case True
    then have "\<not> has_at (p_name (params s a))"
      using clean by (auto simp: scanned_def)
    then show ?thesis
      using True by (simp add: s' restore_name sc sp split_at_no_at)
  next
    case False
    then have "a \<notin> set (snd (scan_models s models ([], [])))"
      using scan_models_shared [of s models "([], [])"] by auto
    then have "params s1 a = params s a"
      by (simp add: s1_def rename_shared_parameters_def rename_loop_outside)
    then show ?thesis
      using False by (simp add: s' restore_name sc)
  qed
qed

subsection \<open>Evaluating the serialiser on the example inputs\<close>

lemma model_to_dict_Model:
  "sm_class b \<noteq> ''SkyModel'' \<Longrightarrow>
   model_to_dict E selection s (Model n b) =
     (case to_dict E selection s b of
        Inl e \<Rightarrow> Inl e
      | Inr d \<Rightarrow> Inr \<lparr>c_name = model_name (Model n b), c_filename = sm_filename b,
                       c_model = Some d, c_spatial = None, c_spectral = None\<rparr>)"
  by (simp add: model_to_dict_def Let_def split: sum.splits)

lemma model_to_dict_SkyModel:
  "model_to_dict E selection s (SkyModel n sp sc c) =
     (case to_dict E selection s sp of
        Inl e \<Rightarrow> Inl e
      | Inr dsp \<Rightarrow>
          (case to_dict E selection s sc of
             Inl e \<Rightarrow> Inl e
           | Inr dsc \<Rightarrow>
               Inr \<lparr>c_name = n, c_filename = None, c_model = None,
                    c_spatial = Some (case sm_filename sp of
                                        Some f \<Rightarrow> dsp\<lparr>md_filename := Some f\<rparr>
                                      | None \<Rightarrow> dsp),
                    c_spectral = Some dsc\<rparr>))"
  by (simp add: model_to_dict_def Let_def split: sum.splits)

lemma str_0: "str 0 = ''0''"
  by (simp add: str.simps digit_def)

lemma renamed_two_backgrounds:
  "rename_shared_parameters two_backgrounds (store_norm n) =
     set_name 0 (n @ ''@shared_0'') (store_norm n)"
  by (simp add: rename_shared_parameters_def two_backgrounds_def store_norm_def bkg_body_def str_0)

lemma to_dict_bkg_all:
  "to_dict env_ex ''all'' s (bkg_body c) =
     Inr \<lparr>md_type = ''BackgroundModel'', md_filename = None, md_energy = None,
          md_values = None, md_parameters = map (param_to_dict s) (colls s c)\<rparr>"
  by (simp add: to_dict_def env_ex_def bkg_body_def)

lemma to_dict_bkg_full: "to_dict env_ex ''full'' s (bkg_body c) = Inl ValueError"
  by (simp add: to_dict_def env_ex_def)

lemma bkg_class: "sm_class (bkg_body c) \<noteq> ''SkyModel''"
  by (simp add: bkg_body_def)

lemma cx_a: "models_to_dict env_ex two_backgrounds ''full'' (store_norm ''norm'') =
        (Inl ValueError, set_name 0 ''norm@shared_0'' (store_norm ''norm''))"
  using renamed_two_backgrounds [of "''norm''"]
  by (simp add: models_to_dict_def two_backgrounds_def model_to_dict_Model bkg_class to_dict_bkg_full)

lemma cx_b: "rename_shared_parameters [Model None (bkg_body 0)] (store_norm n) = store_norm n"
  by (simp add: rename_shared_parameters_def store_norm_def bkg_body_def)

lemma cx_c: "models_to_dict env_ex [Model None (bkg_body 0)] ''all'' (store_norm ''a@b'') =
   (Inr [\<lparr>c_name = ''BackgroundModel'', c_filename = None,
               c_model = Some \<lparr>md_type = ''BackgroundModel'', md_filename = None,
                 md_energy = None, md_values = None,
                 md_parameters = [\<lparr>pd_name = ''a@b'', pd_value = Finite 1, pd_unit = [],
                                   pd_frozen = False\<rparr>]\<rparr>,
               c_spatial = None, c_spectral = None\<rparr>],
    set_name 0 ''a'' (store_norm ''a@b''))"
  apply (simp add: models_to_dict_def cx_b model_to_dict_Model bkg_class to_dict_bkg_all)
  apply (simp add: store_norm_def param_to_dict_def bkg_body_def split_at_def)
  done


lemma wit_r: "models_to_dict env_ex two_backgrounds ''all'' (store_norm ''norm'') =
     (Inr [\<lparr>c_name = ''bkg1'', c_filename = None,
            c_model = Some \<lparr>md_type = ''BackgroundModel'', md_filename = None,
              md_energy = None, md_values = None,
              md_parameters = [\<lparr>pd_name = ''norm@shared_0'', pd_value = Finite 1, pd_unit = [],
                                pd_frozen = False\<rparr>]\<rparr>,
            c_spatial = None, c_spectral = None\<rparr>,
          \<lparr>c_name = ''bkg2'', c_filename = None,
            c_model = Some \<lparr>md_type = ''BackgroundModel'', md_filename = None,
              md_energy = None, md_values = None,
              md_parameters = [\<lparr>pd_name = ''norm@shared_0'', pd_value = Finite 1, pd_unit = [],
                                pd_frozen = False\<rparr>]\<rparr>,
            c_spatial = None, c_spectral = None\<rparr>],
      restore_shared_parameters two_backgrounds
        (set_name 0 ''norm@shared_0'' (store_norm ''norm'')))"
  using renamed_two_backgrounds [of "''norm''"]
  apply (simp add: models_to_dict_def)
  apply (simp add: two_backgrounds_def model_to_dict_Model bkg_class to_dict_bkg_all)
  apply (simp add: store_norm_def param_to_dict_def set_name_def bkg_body_def
      component_eq_def model_dict_eq_def param_dict_eq_def)
  done

text \<open>The theorem of claim C3 at two background models sharing their norm.\<close>

theorem models_to_dict_restores_names_witness:
  "models_to_dict env_ex two_backgrounds ''all'' (store_norm ''norm'') =
     (Inr [\<lparr>c_name = ''bkg1'', c_filename = None,
            c_model = Some \<lparr>md_type = ''BackgroundModel'', md_filename = None,
              md_energy = None, md_values = None,
              md_parameters = [\<lparr>pd_name = ''norm@shared_0'', pd_value = Finite 1, pd_unit = [],
                                pd_frozen = False\<rparr>]\<rparr>,
            c_spatial = None, c_spectral = None\<rparr>,
          \<lparr>c_name = ''bkg2'', c_filename = None,
            c_model = Some \<lparr>md_type = ''BackgroundModel'', md_filename = None,
              md_energy = None, md_values = None,
              md_parameters = [\<lparr>pd_name = ''norm@shared_0'', pd_value = Finite 1, pd_unit = [],
                                pd_frozen = False\<rparr>]\<rparr>,
            c_spatial = None, c_spectral = None\<rparr>],
      restore_shared_parameters two_backgrounds
        (set_name 0 ''norm@shared_0'' (store_norm ''norm'')))
   \<and> list_all (\<lambda>m. list_all (\<lambda>a. \<not> has_at (p_name (params (store_norm ''norm'') a)))
                      (colls (store_norm ''norm'') (model_parameters m))) two_backgrounds
   \<and> p_name (params (restore_shared_parameters two_backgrounds
        (set_name 0 ''norm@shared_0'' (store_norm ''norm''))) 0) = ''norm''"
proof -
  have clean: "\<forall>m\<in>set two_backgrounds. \<forall>a\<in>set (colls (store_norm ''norm'') (model_parameters m)).
         \<not> has_at (p_name (params (store_norm ''norm'') a))"
    by (simp add: two_backgrounds_def store_norm_def has_at_def)
  have "p_name (params (store_norm ''norm'') 0) = ''norm''"
    by (simp add: store_norm_def)
  with models_to_dict_restores_names [OF wit_r clean, of 0] wit_r clean
  show ?thesis by (simp add: list_all_iff)
qed

text \<open>
  Claim C3 as stated fails: the restoring pass cuts every name at the first marker, so a
  returning call shortens a name that had the marker \<^verbatim>\<open>@\<close> before the call.
\<close>

theorem names_not_restored_counterexample:
  "fst (models_to_dict env_ex [Model None (bkg_body 0)] ''all'' (store_norm ''a@b''))
       = Inr [\<lparr>c_name = ''BackgroundModel'', c_filename = None,
               c_model = Some \<lparr>md_type = ''BackgroundModel'', md_filename = None,
                 md_energy = None, md_values = None,
                 md_parameters = [\<lparr>pd_name = ''a@b'', pd_value = Finite 1, pd_unit = [],
                                   pd_frozen = False\<rparr>]\<rparr>,
               c_spatial = None, c_spectral = None\<rparr>]
   \<and> p_name (params (store_norm ''a@b'') 0) = ''a@b''
   \<and> p_name (params (snd (models_to_dict env_ex [Model None (bkg_body 0)] ''all''
         (store_norm ''a@b''))) 0) = ''a''"
  by (simp add: cx_c params_set_name) (simp add: store_norm_def)

subsection \<open>Equality of records\<close>

lemma float_eq_imp_eq: "float_eq x y \<Longrightarrow> x = y"
  by (cases x; cases y) simp_all

lemma float_eq_refl: "x \<noteq> NaN \<Longrightarrow> float_eq x x"
  by (cases x) simp_all

lemma float_list_eq_self: "NaN \<notin> set xs \<Longrightarrow> list_all2 float_eq xs xs"
  by (induction xs) (auto intro!: float_eq_refl)

lemma list_all2_imp_eq: "list_all2 P xs ys \<Longrightarrow> (\<And>x y. P x y \<Longrightarrow> x = y) \<Longrightarrow> xs = ys"
  by (induction rule: list_all2_induct) simp_all

lemma rel_option_imp_eq: "rel_option P x y \<Longrightarrow> (\<And>a b. P a b \<Longrightarrow> a = b) \<Longrightarrow> x = y"
  by (cases x; cases y) simp_all

lemma param_dict_eq_imp_eq: "param_dict_eq x y \<Longrightarrow> x = y"
  by (simp add: param_dict_eq_def float_eq_imp_eq)

lemma qdata_eq_imp_eq: "qdata_eq x y \<Longrightarrow> x = y"
proof -
  assume "qdata_eq x y"
  then have "list_all2 float_eq (q_data x) (q_data y)" and "q_unit x = q_unit y"
    by (simp_all add: qdata_eq_def)
  moreover from this(1) have "q_data x = q_data y"
    by (rule list_all2_imp_eq) (rule float_eq_imp_eq)
  ultimately show ?thesis by simp
qed

lemma model_dict_eq_imp_eq: "model_dict_eq x y \<Longrightarrow> x = y"
proof -
  assume a: "model_dict_eq x y"
  have "md_energy x = md_energy y"
    using a by (auto simp: model_dict_eq_def intro: rel_option_imp_eq qdata_eq_imp_eq)
  moreover have "md_values x = md_values y"
    using a by (auto simp: model_dict_eq_def intro: rel_option_imp_eq qdata_eq_imp_eq)
  moreover have "md_parameters x = md_parameters y"
    using a by (auto simp: model_dict_eq_def intro: list_all2_imp_eq param_dict_eq_imp_eq)
  ultimately show ?thesis using a by (simp add: model_dict_eq_def)
qed

lemma component_eq_imp_eq: "component_eq x y \<Longrightarrow> x = y"
proof -
  assume a: "component_eq x y"
  have "c_model x = c_model y"
    using a by (auto simp: component_eq_def intro: rel_option_imp_eq model_dict_eq_imp_eq)
  moreover have "c_spatial x = c_spatial y"
    using a by (auto simp: component_eq_def intro: rel_option_imp_eq model_dict_eq_imp_eq)
  moreover have "c_spectral x = c_spectral y"
    using a by (auto simp: component_eq_def intro: rel_option_imp_eq model_dict_eq_imp_eq)
  ultimately show ?thesis using a by (simp add: component_eq_def)
qed

lemma listed_iff:
  "list_ex (\<lambda>e. component_eq e d) acc \<Longrightarrow> d \<in> set acc"
  by (auto simp: list_ex_iff dest: component_eq_imp_eq)

text \<open>A record without NaN equals itself.\<close>

lemma to_dict_eq_self:
  assumes "to_dict E selection s b = Inr d" and "finite_sub s b"
  shows "model_dict_eq d d"
proof -
  have d: "d = \<lparr>md_type = sm_class b, md_filename = None,
                 md_energy = map_option fst (sm_table b),
                 md_values = map_option snd (sm_table b),
                 md_parameters = map (param_to_dict s) (colls s (sm_parameters b))\<rparr>"
    using assms(1) by (auto simp: to_dict_def split: option.splits)
  have "param_dict_eq (param_to_dict s a) (param_to_dict s a)"
    if "a \<in> set (colls s (sm_parameters b))" for a
    using assms(2) that
    by (simp add: finite_sub_def list_all_iff param_dict_eq_def param_to_dict_def float_eq_refl)
  then have ps: "list_all2 param_dict_eq (map (param_to_dict s) (colls s (sm_parameters b)))
                   (map (param_to_dict s) (colls s (sm_parameters b)))"
    by (simp add: list_all2_same)
  have tb: "rel_option qdata_eq (map_option fst (sm_table b)) (map_option fst (sm_table b))"
    "rel_option qdata_eq (map_option snd (sm_table b)) (map_option snd (sm_table b))"
    using assms(2)
    by (auto simp: finite_sub_def qdata_eq_def float_list_eq_self split: option.splits)
  show ?thesis
    unfolding d using ps tb by (simp add: model_dict_eq_def)
qed

lemma model_dict_eq_filename:
  "model_dict_eq d d \<Longrightarrow> model_dict_eq (d\<lparr>md_filename := f\<rparr>) (d\<lparr>md_filename := f\<rparr>)"
  by (simp add: model_dict_eq_def)

lemma model_to_dict_eq_self:
  assumes "model_to_dict E selection s m = Inr d" and "nan_free s m"
  shows "component_eq d d"
proof (cases m)
  case (Model n b)
  from assms(1) Model obtain d0 where t: "to_dict E selection s b = Inr d0"
    and c: "c_model d = Some d0" "c_spatial d = None" "c_spectral d = None"
    by (auto simp: model_to_dict_def Let_def split: sum.splits if_splits)
  have "finite_sub s b" using assms(2) Model by simp
  with t have "model_dict_eq d0 d0" by (rule to_dict_eq_self)
  then show ?thesis using c by (simp add: component_eq_def)
next
  case (SkyModel n sp sc c)
  from assms(1) SkyModel obtain dsp dsc where t1: "to_dict E selection s sp = Inr dsp"
    and t2: "to_dict E selection s sc = Inr dsc"
    and c: "c_model d = None"
      "c_spatial d = Some (case sm_filename sp of Some f \<Rightarrow> dsp\<lparr>md_filename := Some f\<rparr> | None \<Rightarrow> dsp)"
      "c_spectral d = Some dsc"
    by (auto simp: model_to_dict_SkyModel split: sum.splits)
  have fs: "finite_sub s sp" "finite_sub s sc" using assms(2) SkyModel by simp_all
  have "model_dict_eq dsp dsp"
    using t1 fs(1) by (rule to_dict_eq_self)
  then have "model_dict_eq (case sm_filename sp of Some f \<Rightarrow> dsp\<lparr>md_filename := Some f\<rparr> | None \<Rightarrow> dsp)
               (case sm_filename sp of Some f \<Rightarrow> dsp\<lparr>md_filename := Some f\<rparr> | None \<Rightarrow> dsp)"
    by (simp add: model_dict_eq_filename split: option.splits)
  moreover have "model_dict_eq dsc dsc"
    using t2 fs(2) by (rule to_dict_eq_self)
  ultimately show ?thesis using c by (simp add: component_eq_def)
qed

lemma rename_loop_value:
  "p_value (params (rename_loop k as s) b) = p_value (params s b)"
  by (induction as arbitrary: k s) (simp_all add: params_set_name)

lemma nan_free_rename:
  "nan_free (rename_shared_parameters ms s) m = nan_free s m"
  by (cases m)
    (simp_all add: finite_sub_def rename_shared_parameters_def rename_loop_value)

subsection \<open>De-duplication of records\<close>

lemma unique_records_append:
  "unique_records (xs @ [d]) \<longleftrightarrow> unique_records xs \<and> \<not> list_ex (\<lambda>e. component_eq e d) xs"
  by (induction xs) (auto simp: list_ex_iff)

lemma to_dict_loop_unique:
  "to_dict_loop E selection s ms acc = Inr out \<Longrightarrow> unique_records acc \<Longrightarrow> unique_records out"
proof (induction ms arbitrary: acc)
  case Nil
  then show ?case by simp
next
  case (Cons m ms)
  show ?case
  proof (cases "model_to_dict E selection s m")
    case (Inl e)
    with Cons.prems show ?thesis by simp
  next
    case (Inr d)
    let ?acc = "if \<not> list_ex (\<lambda>e. component_eq e d) acc then acc @ [d] else acc"
    have "to_dict_loop E selection s ms ?acc = Inr out"
      using Cons.prems(1) Inr by simp
    moreover have "unique_records ?acc"
      using Cons.prems(2) by (simp add: unique_records_append)
    ultimately show ?thesis by (rule Cons.IH)
  qed
qed

lemma to_dict_loop_keeps:
  "to_dict_loop E selection s ms acc = Inr out \<Longrightarrow> set acc \<subseteq> set out"
proof (induction ms arbitrary: acc)
  case Nil
  then show ?case by simp
next
  case (Cons m ms)
  show ?case
  proof (cases "model_to_dict E selection s m")
    case (Inl e)
    with Cons.prems show ?thesis by simp
  next
    case (Inr d)
    let ?acc = "if \<not> list_ex (\<lambda>e. component_eq e d) acc then acc @ [d] else acc"
    have "to_dict_loop E selection s ms ?acc = Inr out"
      using Cons.prems Inr by simp
    from Cons.IH [OF this] have "set ?acc \<subseteq> set out" .
    moreover have "set acc \<subseteq> set ?acc" by auto
    ultimately show ?thesis by (rule order_trans [rotated])
  qed
qed

lemma to_dict_loop_member:
  "to_dict_loop E selection s ms acc = Inr out \<Longrightarrow> m \<in> set ms \<Longrightarrow>
   \<exists>d. model_to_dict E selection s m = Inr d \<and> d \<in> set out"
proof (induction ms arbitrary: acc)
  case Nil
  then show ?case by simp
next
  case (Cons x ms)
  show ?case
  proof (cases "model_to_dict E selection s x")
    case (Inl e)
    with Cons.prems show ?thesis by simp
  next
    case (Inr d)
    let ?acc = "if \<not> list_ex (\<lambda>e. component_eq e d) acc then acc @ [d] else acc"
    have loop: "to_dict_loop E selection s ms ?acc = Inr out"
      using Cons.prems(1) Inr by simp
    show ?thesis
    proof (cases "m = x")
      case True
      have "d \<in> set ?acc" by (simp add: listed_iff)
      then have "d \<in> set out"
        using to_dict_loop_keeps [OF loop] by blast
      with True Inr show ?thesis by simp
    next
      case False
      with Cons.prems(2) have "m \<in> set ms" by simp
      from Cons.IH [OF loop this] show ?thesis .
    qed
  qed
qed

lemma count_list_unique:
  "unique_records xs \<Longrightarrow> component_eq x x \<Longrightarrow> x \<in> set xs \<Longrightarrow> count_list xs x = 1"
proof (induction xs)
  case Nil
  then show ?case by simp
next
  case (Cons y xs)
  show ?case
  proof (cases "x = y")
    case True
    have "\<not> list_ex (\<lambda>e. component_eq x e) xs" using Cons.prems(1) True by simp
    then have "x \<notin> set xs" using Cons.prems(2) by (auto simp: list_ex_iff)
    then show ?thesis using True by simp
  next
    case False
    then show ?thesis using Cons by simp
  qed
qed

lemma models_to_dict_Inr:
  "models_to_dict E models selection s = (Inr models_data, s') \<Longrightarrow>
   to_dict_loop E selection (rename_shared_parameters models s) models [] = Inr models_data"
  by (auto simp: models_to_dict_def Let_def split: sum.splits)

lemma record_once:
  assumes "models_to_dict E models selection s = (Inr models_data, s')"
    and "m \<in> set models"
    and "model_to_dict E selection (rename_shared_parameters models s) m = Inr d"
    and "component_eq d d"
  shows "count_list models_data d = 1"
proof -
  note loop = models_to_dict_Inr [OF assms(1)]
  have "unique_records models_data"
    using to_dict_loop_unique [OF loop] by simp
  moreover have "d \<in> set models_data"
    using to_dict_loop_member [OF loop assms(2)] assms(3) by auto
  ultimately show ?thesis
    using assms(4) by (simp add: count_list_unique)
qed


text \<open>
  Claim C10. The de-duplication compares the produced dicts, not the objects: when two
  different model objects of the list serialise to dicts that \<^verbatim>\<open>==\<close> finds equal (the
  dicts that \<^verbatim>\<open>_model_to_dict\<close> produces in the call, after the renaming pass), the two
  dicts are the same record and the output holds this record once.
\<close>

theorem equal_dicts_one_record:
  assumes "models_to_dict E models selection s = (Inr models_data, s')"
    and "i < length models" and "j < length models" and "models ! i \<noteq> models ! j"
    and "model_to_dict E selection (rename_shared_parameters models s) (models ! i) = Inr di"
    and "model_to_dict E selection (rename_shared_parameters models s) (models ! j) = Inr dj"
    and "component_eq di dj"
  shows "\<exists>d. model_to_dict E selection (rename_shared_parameters models s) (models ! i) = Inr d
           \<and> model_to_dict E selection (rename_shared_parameters models s) (models ! j) = Inr d
           \<and> count_list models_data d = 1"
proof -
  have m: "models ! i \<in> set models"
    using assms(2) by simp
  have eq: "dj = di"
    using component_eq_imp_eq [OF assms(7)] by simp
  then have "component_eq di di" using assms(7) by simp
  with record_once [OF assms(1) m assms(5)] assms(5,6) eq show ?thesis by simp
qed

lemma renamed_pair:
  "rename_shared_parameters [Model x (bkg_body c), Model y (bkg_body c')] (store_norm n) =
     set_name 0 (n @ ''@shared_0'') (store_norm n)"
  by (simp add: rename_shared_parameters_def store_norm_def bkg_body_def str_0)

lemma model_to_dict_bkg:
  "model_to_dict env_ex ''all'' (set_name 0 pn (store_norm n)) (Model (Some x) (bkg_body c)) =
     Inr (bkg_record x pn)"
  by (simp add: model_to_dict_Model bkg_class to_dict_bkg_all)
    (simp add: bkg_record_def bkg_body_def store_norm_def param_to_dict_def set_name_def)

lemma bkg_record_eq [simp]:
  "component_eq (bkg_record n pn) (bkg_record n' pn') \<longleftrightarrow> n = n' \<and> pn = pn'"
  by (auto simp: bkg_record_def component_eq_def model_dict_eq_def param_dict_eq_def)

lemma models_to_dict_same_twice:
  "models_to_dict env_ex same_twice ''all'' (store_norm ''norm'') =
     (Inr [bkg_record ''bkg1'' ''norm@shared_0''],
      restore_shared_parameters same_twice (set_name 0 ''norm@shared_0'' (store_norm ''norm'')))"
  using renamed_pair [of "Some ''bkg1''" 0 "Some ''bkg1''" 0 "''norm''"]
  by (simp add: models_to_dict_def same_twice_def model_to_dict_bkg)

lemma models_to_dict_equal_twins:
  "models_to_dict env_ex equal_twins ''all'' (store_norm ''norm'') =
     (Inr [bkg_record ''bkg'' ''norm@shared_0''],
      restore_shared_parameters equal_twins (set_name 0 ''norm@shared_0'' (store_norm ''norm'')))"
  using renamed_pair [of "Some ''bkg''" 0 "Some ''bkg''" 1 "''norm''"]
  by (simp add: models_to_dict_def equal_twins_def model_to_dict_bkg)

lemma finite_sub_bkg: "finite_sub (store_norm n) (bkg_body c)"
  by (simp add: finite_sub_def store_norm_def bkg_body_def)


lemma renamed_nan:
  "rename_shared_parameters same_twice store_nan = set_name 0 ''norm@shared_0'' store_nan"
  by (simp add: rename_shared_parameters_def same_twice_def store_nan_def bkg_body_def str_0)

lemma model_to_dict_nan:
  "model_to_dict env_ex ''all'' (set_name 0 ''norm@shared_0'' store_nan)
     (Model (Some ''bkg1'') (bkg_body 0)) = Inr nan_record"
  by (simp add: model_to_dict_Model bkg_class to_dict_bkg_all)
    (simp add: nan_record_def bkg_body_def store_nan_def param_to_dict_def set_name_def)

lemma nan_record_differs: "\<not> component_eq nan_record nan_record"
  by (simp add: nan_record_def component_eq_def model_dict_eq_def param_dict_eq_def)


text \<open>The theorem of claim C10 at two background models with equal name, type and parameters.\<close>

theorem equal_dicts_one_record_witness:
  "models_to_dict env_ex equal_twins ''all'' (store_norm ''norm'') =
     (Inr [bkg_record ''bkg'' ''norm@shared_0''],
      restore_shared_parameters equal_twins (set_name 0 ''norm@shared_0'' (store_norm ''norm'')))
   \<and> equal_twins ! 0 \<noteq> equal_twins ! 1
   \<and> model_to_dict env_ex ''all'' (rename_shared_parameters equal_twins (store_norm ''norm''))
       (equal_twins ! 0) = Inr (bkg_record ''bkg'' ''norm@shared_0'')
   \<and> model_to_dict env_ex ''all'' (rename_shared_parameters equal_twins (store_norm ''norm''))
       (equal_twins ! 1) = Inr (bkg_record ''bkg'' ''norm@shared_0'')
   \<and> component_eq (bkg_record ''bkg'' ''norm@shared_0'') (bkg_record ''bkg'' ''norm@shared_0'')
   \<and> count_list [bkg_record ''bkg'' ''norm@shared_0''] (bkg_record ''bkg'' ''norm@shared_0'') = 1"
proof -
  have ne: "equal_twins ! 0 \<noteq> equal_twins ! 1"
    by (simp add: equal_twins_def bkg_body_def)
  have l0: "0 < length equal_twins" and l1: "1 < length equal_twins"
    by (simp_all add: equal_twins_def)
  have r: "rename_shared_parameters equal_twins (store_norm ''norm'') =
             set_name 0 ''norm@shared_0'' (store_norm ''norm'')"
    using renamed_pair [of "Some ''bkg''" 0 "Some ''bkg''" 1 "''norm''"]
    by (simp add: equal_twins_def)
  have d0: "model_to_dict env_ex ''all'' (rename_shared_parameters equal_twins (store_norm ''norm''))
              (equal_twins ! 0) = Inr (bkg_record ''bkg'' ''norm@shared_0'')"
    and d1: "model_to_dict env_ex ''all'' (rename_shared_parameters equal_twins (store_norm ''norm''))
              (equal_twins ! 1) = Inr (bkg_record ''bkg'' ''norm@shared_0'')"
    unfolding r by (simp_all add: equal_twins_def model_to_dict_bkg)
  have e: "component_eq (bkg_record ''bkg'' ''norm@shared_0'') (bkg_record ''bkg'' ''norm@shared_0'')"
    by simp
  from equal_dicts_one_record [OF models_to_dict_equal_twins l0 l1 ne d0 d1 e]
    models_to_dict_equal_twins ne d0 d1 e
  show ?thesis by simp
qed

subsection \<open>Records of unsupported types\<close>

lemma dict_to_models_loop_append:
  "dict_to_models_loop E (pre @ rest) models s =
     (case dict_to_models_loop E pre models s of
        Inl e \<Rightarrow> Inl e
      | Inr (ms, s1) \<Rightarrow> dict_to_models_loop E rest ms s1)"
proof (induction pre arbitrary: models s)
  case Nil
  show ?case by simp
next
  case (Cons r pre)
  show ?case
    by (simp add: Cons.IH split: option.splits sum.splits prod.splits)
qed

text \<open>
  Claim C4, as the code has it. On a components list with a record that has the key
  \<^verbatim>\<open>"model"\<close> and a type other than \<^verbatim>\<open>BackgroundModel\<close>, \<^verbatim>\<open>dict_to_models\<close> never
  returns normally and never skips the record: it raises \<^verbatim>\<open>NotImplementedError\<close> when
  the loop reaches the record, and the error of an earlier record when one fails first.
\<close>

theorem unsupported_type_raises:
  assumes "c_model r = Some d" and "md_type d \<noteq> ''BackgroundModel''"
  shows "dict_to_models E (pre @ r # post) link s =
           (case dict_to_models_loop E pre [] s of
              Inl e \<Rightarrow> Inl e
            | Inr x \<Rightarrow> Inl NotImplementedError)"
  using assms
  by (simp add: dict_to_models_def dict_to_models_loop_append split: sum.splits prod.splits)

text \<open>The theorem of claim C4 at a list holding one record of type \<^verbatim>\<open>SkyDiffuseCube\<close>.\<close>

theorem unsupported_type_raises_witness:
  "c_model unsupported_record = Some (plain_dict ''SkyDiffuseCube'' [])
   \<and> md_type (plain_dict ''SkyDiffuseCube'' []) \<noteq> ''BackgroundModel''
   \<and> dict_to_models env_ex ([] @ unsupported_record # []) True (store_norm ''norm'') =
       Inl NotImplementedError"
proof -
  have a: "c_model unsupported_record = Some (plain_dict ''SkyDiffuseCube'' [])"
    by (simp add: unsupported_record_def)
  have b: "md_type (plain_dict ''SkyDiffuseCube'' []) \<noteq> ''BackgroundModel''"
    by (simp add: plain_dict_def)
  from unsupported_type_raises [OF a b, of env_ex "[]" "[]" True "store_norm ''norm''"] a b
  show ?thesis by simp
qed

text \<open>
  Claim C4 as stated fails: the records are read in order, and a composite record in
  front whose spatial type the module does not have raises \<^verbatim>\<open>AttributeError\<close> before
  the unsupported record is reached.
\<close>

theorem other_error_first_counterexample:
  "c_model unsupported_record = Some (plain_dict ''SkyDiffuseCube'' [])
   \<and> md_type (plain_dict ''SkyDiffuseCube'' []) \<noteq> ''BackgroundModel''
   \<and> dict_to_models env_ex [unknown_spatial_record, unsupported_record] True (store_norm ''norm'')
       = Inl (AttributeError ''Nope'')"
  by (simp add: dict_to_models_def unknown_spatial_record_def unsupported_record_def
      dict_to_skymodel_def dict_to_spatial_def plain_dict_def construct_def env_ex_def)

subsection \<open>Basic facts about the store updates\<close>

lemma params_set_coll [simp]: "params (set_coll c i a s) = params s"
  by (simp add: set_coll_def)

lemma colls_set_coll: "colls (set_coll c i a s) c' = (if c' = c then (colls s c)[i := a] else colls s c')"
  by (simp add: set_coll_def)

lemma names_set_name_len [simp]: "length (names s c) = length (colls s c)"
  by (simp add: names_def)

lemma names_nth: "i < length (colls s c) \<Longrightarrow> names s c ! i = p_name (params s (colls s c ! i))"
  by (simp add: names_def)

lemma names_set_coll_other: "c' \<noteq> c \<Longrightarrow> names (set_coll c i a s) c' = names s c'"
  by (simp add: names_def colls_set_coll)

lemma index_of_le: "index_of x xs \<le> length xs"
  by (induction xs) auto

lemma index_of_nth: "index_of x xs < length xs \<Longrightarrow> xs ! index_of x xs = x"
  by (induction xs) (auto split: if_splits)

lemma index_of_absent: "x \<notin> set xs \<Longrightarrow> index_of x xs = length xs"
  by (induction xs) auto

lemma index_of_present: "x \<in> set xs \<Longrightarrow> index_of x xs < length xs"
  by (induction xs) auto

lemma index_of_append:
  "index_of x (xs @ ys) = (if x \<in> set xs then index_of x xs else length xs + index_of x ys)"
  by (induction xs) auto

lemma index_of_first:
  "i < length xs \<Longrightarrow> xs ! i = x \<Longrightarrow> (\<And>k. k < i \<Longrightarrow> xs ! k \<noteq> x) \<Longrightarrow> index_of x xs = i"
proof (induction xs arbitrary: i)
  case Nil
  then show ?case by simp
next
  case (Cons y ys)
  show ?case
  proof (cases i)
    case 0
    with Cons.prems show ?thesis by simp
  next
    case (Suc j)
    have "y \<noteq> x"
      using Cons.prems(3) [of 0] Suc by simp
    moreover have "index_of x ys = j"
    proof (rule Cons.IH)
      show "j < length ys" using Cons.prems(1) Suc by simp
      show "ys ! j = x" using Cons.prems(2) Suc by simp
      show "ys ! k \<noteq> x" if "k < j" for k
        using Cons.prems(3) [of "Suc k"] that Suc by simp
    qed
    ultimately show ?thesis using Suc by simp
  qed
qed

subsection \<open>What one step of the linking pass changes\<close>

lemma link_step_clean:
  "\<not> has_at (cur_name m i (fst st)) \<Longrightarrow> link_step m i st = st"
  by (simp add: link_step_def cur_name_def Let_def)

lemma link_step_register:
  "snd (link_step m i st) =
     (if has_at (cur_name m i (fst st)) \<and> snd st (cur_name m i (fst st)) = None
      then (snd st)(cur_name m i (fst st) \<mapsto> colls (fst st) (model_parameters m) ! i)
      else snd st)"
  by (auto simp: link_step_def cur_name_def Let_def split: option.splits model.splits)

lemma link_step_params:
  "params (fst (link_step m i st)) =
     (if has_at (cur_name m i (fst st)) \<and> snd st (cur_name m i (fst st)) = None
      then params (set_name (colls (fst st) (model_parameters m) ! i)
                     (split_at (cur_name m i (fst st))) (fst st))
      else params (fst st))"
  by (auto simp: link_step_def cur_name_def Let_def split: option.splits model.splits)

lemma link_step_colls:
  assumes "c \<notin> set (nested m)"
  shows "colls (fst (link_step m i st)) c =
     (case (if has_at (cur_name m i (fst st)) then snd st (cur_name m i (fst st)) else None) of
        Some new \<Rightarrow>
          if c = model_parameters m
          then (colls (fst st) c)[index_of (cur_name m i (fst st)) (names (fst st) c) := new]
          else colls (fst st) c
      | None \<Rightarrow> colls (fst st) c)"
  using assms
  by (cases m)
    (auto simp: link_step_def cur_name_def Let_def colls_set_coll split: option.splits)

lemma link_step_length [simp]:
  "length (colls (fst (link_step m i st)) c) = length (colls (fst st) c)"
  by (cases m)
    (auto simp: link_step_def Let_def colls_set_coll split: option.splits)

lemma link_params_length [simp]:
  "length (colls (fst (link_params m i st)) c) = length (colls (fst st) c)"
proof (induction m i st rule: link_params.induct)
  case (1 model i st)
  show ?case
    using 1 by (subst link_params.simps) auto
qed

lemma link_params_done:
  "length (colls (fst st) (model_parameters m)) \<le> i \<Longrightarrow> link_params m i st = st"
  by (subst link_params.simps) simp

lemma link_params_step:
  "i < length (colls (fst st) (model_parameters m)) \<Longrightarrow>
   link_params m i st = link_params m (Suc i) (link_step m i st)"
  by (subst link_params.simps) simp

subsection \<open>Linking without marked names does nothing\<close>

lemma link_params_clean:
  "clean_model (fst st) m \<Longrightarrow> link_params m i st = st"
proof (induction m i st rule: link_params.induct)
  case (1 model i st)
  show ?case
  proof (cases "i < length (colls (fst st) (model_parameters model))")
    case True
    then have "\<not> has_at (cur_name model i (fst st))"
      using "1.prems" by (simp add: clean_model_def cur_name_def list_all_length)
    then have step: "link_step model i st = st"
      by (rule link_step_clean)
    show ?thesis
      using "1.IH" [OF True] "1.prems" True step
      by (simp add: link_params_step)
  next
    case False
    then show ?thesis by (simp add: link_params_done)
  qed
qed

lemma link_models_clean:
  "list_all (clean_model (fst st)) ms \<Longrightarrow> link_models ms st = st"
  by (induction ms) (simp_all add: link_params_clean)

lemma link_shared_parameters_clean:
  "list_all (clean_model s) ms \<Longrightarrow> link_shared_parameters ms s = s"
  by (simp add: link_shared_parameters_def link_models_clean)

subsection \<open>Linking leaves an unmarked parameter in its place\<close>

lemma set_name_kept:
  assumes "kept s c k a p" and "\<not> has_at (p_name p)" and "has_at (p_name (params s b))"
  shows "kept (set_name b n s) c k a p"
proof -
  have "b \<noteq> a" using assms by (auto simp: kept_def)
  then show ?thesis using assms(1) by (simp add: kept_def params_set_name)
qed

lemma set_coll_kept:
  assumes "kept s c k a p" and "\<not> has_at (p_name p)" and "has_at x"
  shows "kept (set_coll c' (index_of x (names s c')) new s) c k a p"
proof (cases "c' = c \<and> index_of x (names s c') = k")
  case True
  then have c: "c' = c" and k: "index_of x (names s c) = k" by blast+
  have "k < length (names s c)"
    using assms(1) by (simp add: kept_def)
  with k have "names s c ! k = x"
    using index_of_nth [of x "names s c"] by simp
  then have "p_name p = x"
    using assms(1) by (simp add: kept_def names_nth)
  with assms(2,3) show ?thesis by simp
next
  case False
  then show ?thesis
    using assms(1) by (auto simp: kept_def colls_set_coll)
qed

lemma link_step_kept:
  assumes "kept (fst st) c k a p" and "\<not> has_at (p_name p)"
  shows "kept (fst (link_step m i st)) c k a p"
proof (cases "has_at (cur_name m i (fst st))")
  case False
  then show ?thesis using assms(1) by (simp add: link_step_clean)
next
  case True
  note marked = this
  let ?x = "cur_name m i (fst st)"
  show ?thesis
  proof (cases "snd st ?x")
    case None
    have "kept (set_name (colls (fst st) (model_parameters m) ! i) (split_at ?x) (fst st)) c k a p"
      using assms marked by (intro set_name_kept) (simp_all add: cur_name_def)
    then show ?thesis
      using None marked by (simp add: link_step_def cur_name_def Let_def)
  next
    case (Some new)
    let ?s1 = "set_coll (model_parameters m) (index_of ?x (names (fst st) (model_parameters m))) new (fst st)"
    have k1: "kept ?s1 c k a p"
      by (rule set_coll_kept [OF assms marked])
    have k2: "kept (set_coll c' (index_of ?x (names ?s1 c')) new ?s1) c k a p" for c'
      by (rule set_coll_kept [OF k1 assms(2) marked])
    show ?thesis
    proof (cases m)
      case (Model n b)
      then show ?thesis
        using Some marked k1 by (simp add: link_step_def cur_name_def Let_def)
    next
      case (SkyModel n sp sc cc)
      then show ?thesis
        using Some marked k1 k2 [of "sm_parameters sp"] k2 [of "sm_parameters sc"]
        by (simp add: link_step_def cur_name_def Let_def)
    qed
  qed
qed

lemma link_params_kept:
  "kept (fst st) c k a p \<Longrightarrow> \<not> has_at (p_name p) \<Longrightarrow> kept (fst (link_params m i st)) c k a p"
proof (induction m i st rule: link_params.induct)
  case (1 model i st)
  show ?case
  proof (cases "i < length (colls (fst st) (model_parameters model))")
    case True
    have "kept (fst (link_step model i st)) c k a p"
      using "1.prems" by (rule link_step_kept)
    from "1.IH" [OF True this "1.prems"(2)] True show ?thesis
      by (simp add: link_params_step)
  next
    case False
    then show ?thesis using "1.prems" by (simp add: link_params_done)
  qed
qed

lemma link_models_kept:
  "kept (fst st) c k a p \<Longrightarrow> \<not> has_at (p_name p) \<Longrightarrow> kept (fst (link_models ms st)) c k a p"
  by (induction ms arbitrary: st) (simp_all add: link_params_kept)

lemma link_shared_parameters_kept:
  "kept s c k a p \<Longrightarrow> \<not> has_at (p_name p) \<Longrightarrow> kept (link_shared_parameters ms s) c k a p"
  by (simp add: link_shared_parameters_def link_models_kept)

subsection \<open>Allocation\<close>

lemma param_to_dict_mk: "params s a = mk_param x \<Longrightarrow> param_to_dict s a = x"
  by (simp add: param_to_dict_def mk_param_def)

lemma params_from_dict_Cons:
  "params_from_dict (x # xs) s =
     (next_param s # fst (params_from_dict xs (snd (new_parameter (mk_param x) s))),
      snd (params_from_dict xs (snd (new_parameter (mk_param x) s))))"
  by (simp add: new_parameter_def mk_param_def split: prod.splits)

lemma new_parameter_snd:
  "next_param (snd (new_parameter p s)) = Suc (next_param s)"
  "colls (snd (new_parameter p s)) = colls s"
  "next_coll (snd (new_parameter p s)) = next_coll s"
  "params (snd (new_parameter p s)) a = (if a = next_param s then p else params s a)"
  by (simp_all add: new_parameter_def)

lemma params_from_dict_fst:
  "fst (params_from_dict xs s) = [next_param s ..< next_param s + length xs]"
proof (induction xs arbitrary: s)
  case Nil
  show ?case by simp
next
  case (Cons x xs)
  show ?case
    unfolding params_from_dict_Cons
    by (simp add: Cons.IH new_parameter_snd upt_conv_Cons del: upt_Suc)
qed

lemma params_from_dict_snd:
  "next_param (snd (params_from_dict xs s)) = next_param s + length xs
   \<and> colls (snd (params_from_dict xs s)) = colls s
   \<and> next_coll (snd (params_from_dict xs s)) = next_coll s"
proof (induction xs arbitrary: s)
  case Nil
  show ?case by simp
next
  case (Cons x xs)
  show ?case
    unfolding params_from_dict_Cons
    by (simp add: Cons.IH new_parameter_snd)
qed

lemma params_from_dict_params:
  "params (snd (params_from_dict xs s)) a =
     (if next_param s \<le> a \<and> a < next_param s + length xs
      then mk_param (xs ! (a - next_param s)) else params s a)"
proof (induction xs arbitrary: s)
  case Nil
  show ?case by auto
next
  case (Cons x xs)
  show ?case
    unfolding params_from_dict_Cons
    by (auto simp: Cons.IH new_parameter_snd nth_Cons' Suc_diff_le)
qed

lemma from_dict_eq:
  "from_dict item s =
     new_collection (fst (params_from_dict (md_parameters item) s))
       (snd (params_from_dict (md_parameters item) s))"
  by (simp add: from_dict_def case_prod_beta)

lemma from_dict_result:
  assumes "from_dict item s = (c, s')"
  shows "c = next_coll s"
    and "next_coll s' = Suc (next_coll s)"
    and "next_param s' = next_param s + length (md_parameters item)"
    and "colls s' = (colls s)(next_coll s :=
           [next_param s ..< next_param s + length (md_parameters item)])"
    and "params s' = params (snd (params_from_dict (md_parameters item) s))"
  using assms
  by (auto simp: from_dict_eq new_collection_def params_from_dict_fst params_from_dict_snd)

lemma dict_to_spatial_result:
  assumes "dict_to_spatial E item s = Inr (sp, s')"
  shows "from_dict item s = (sm_parameters sp, s')" and "sm_class sp = md_type item"
  using assms
  by (auto simp: dict_to_spatial_def split: option.splits sum.splits prod.splits)

lemma dict_to_spectral_result:
  assumes "dict_to_spectral E item s = Inr (sc, s')"
  shows "from_dict item s = (sm_parameters sc, s')" and "sm_class sc = md_type item"
  using assms
  by (auto simp: dict_to_spectral_def split: option.splits sum.splits prod.splits if_splits)

lemma dict_to_skymodel_parts:
  assumes "dict_to_skymodel E r s = Inr (m, s')"
  obtains spd scd sp sc s1 s2 where
    "c_spatial r = Some spd" "c_spectral r = Some scd"
    "dict_to_spatial E spd s = Inr (sp, s1)"
    "dict_to_spectral E scd s1 = Inr (sc, s2)"
    "new_SkyModel (c_name r) sp sc s2 = (m, s')"
  using assms
  by (auto simp: dict_to_skymodel_def split: option.splits sum.splits prod.splits)

lemma dict_to_skymodel_result:
  assumes "dict_to_skymodel E r s = Inr (m, s')"
  obtains sp sc spd scd where
    "c_spatial r = Some spd" "c_spectral r = Some scd"
    "m = SkyModel (c_name r) sp sc (next_coll s + 2)"
    "sm_parameters sp = next_coll s" "sm_parameters sc = Suc (next_coll s)"
    "sm_class sp = md_type spd" "sm_class sc = md_type scd"
    "next_coll s' = next_coll s + 3"
    "next_param s' = next_param s + length (md_parameters spd) + length (md_parameters scd)"
    "colls s' = (colls s)
       (next_coll s := [next_param s ..< next_param s + length (md_parameters spd)],
        Suc (next_coll s) :=
          [next_param s + length (md_parameters spd) ..<
           next_param s + length (md_parameters spd) + length (md_parameters scd)],
        next_coll s + 2 :=
          [next_param s ..< next_param s + length (md_parameters spd)] @
          [next_param s + length (md_parameters spd) ..<
           next_param s + length (md_parameters spd) + length (md_parameters scd)])"
    "\<forall>a. params s' a =
       (if next_param s \<le> a \<and> a < next_param s + length (md_parameters spd)
        then mk_param (md_parameters spd ! (a - next_param s))
        else if next_param s + length (md_parameters spd) \<le> a
               \<and> a < next_param s + length (md_parameters spd) + length (md_parameters scd)
        then mk_param (md_parameters scd ! (a - (next_param s + length (md_parameters spd))))
        else params s a)"
proof -
  from assms obtain spd scd sp sc s1 s2 where
    r: "c_spatial r = Some spd" "c_spectral r = Some scd"
    and a: "dict_to_spatial E spd s = Inr (sp, s1)"
    and b: "dict_to_spectral E scd s1 = Inr (sc, s2)"
    and c: "new_SkyModel (c_name r) sp sc s2 = (m, s')"
    by (rule dict_to_skymodel_parts)
  note fa = from_dict_result [OF dict_to_spatial_result(1) [OF a]]
  note fb = from_dict_result [OF dict_to_spectral_result(1) [OF b]]
  have m: "m = SkyModel (c_name r) sp sc (next_coll s2)"
    and s': "s' = s2\<lparr>colls := (colls s2)(next_coll s2 :=
                 colls s2 (sm_parameters sp) @ colls s2 (sm_parameters sc)),
               next_coll := Suc (next_coll s2)\<rparr>"
    using c by (auto simp: new_SkyModel_def new_collection_def)
  show ?thesis
  proof (rule that [OF r])
    show "m = SkyModel (c_name r) sp sc (next_coll s + 2)"
      using m fa fb by simp
    show "sm_parameters sp = next_coll s" using fa by simp
    show "sm_parameters sc = Suc (next_coll s)" using fa fb by simp
    show "sm_class sp = md_type spd" using dict_to_spatial_result(2) [OF a] .
    show "sm_class sc = md_type scd" using dict_to_spectral_result(2) [OF b] .
    show "next_coll s' = next_coll s + 3" using s' fa fb by simp
    show "next_param s' = next_param s + length (md_parameters spd) + length (md_parameters scd)"
      using s' fa fb by simp
    show "colls s' = (colls s)
       (next_coll s := [next_param s ..< next_param s + length (md_parameters spd)],
        Suc (next_coll s) :=
          [next_param s + length (md_parameters spd) ..<
           next_param s + length (md_parameters spd) + length (md_parameters scd)],
        next_coll s + 2 :=
          [next_param s ..< next_param s + length (md_parameters spd)] @
          [next_param s + length (md_parameters spd) ..<
           next_param s + length (md_parameters spd) + length (md_parameters scd)])"
      using s' fa fb by (simp add: fun_upd_def)
    show "\<forall>a. params s' a =
       (if next_param s \<le> a \<and> a < next_param s + length (md_parameters spd)
        then mk_param (md_parameters spd ! (a - next_param s))
        else if next_param s + length (md_parameters spd) \<le> a
               \<and> a < next_param s + length (md_parameters spd) + length (md_parameters scd)
        then mk_param (md_parameters scd ! (a - (next_param s + length (md_parameters spd))))
        else params s a)"
      using s' fa fb by (simp add: params_from_dict_params)
  qed
qed

subsection \<open>Models stay as they are while later models are built\<close>

lemma extends_refl [simp]: "extends s s"
  by (simp add: extends_def)

lemma extends_trans: "extends s s1 \<Longrightarrow> extends s1 s2 \<Longrightarrow> extends s s2"
  by (auto simp: extends_def)

lemma owned_colls:
  "owned s m \<Longrightarrow> extends s s' \<Longrightarrow> c \<in> set (all_colls m) \<Longrightarrow> colls s' c = colls s c"
  by (auto simp: owned_def extends_def list_all_iff)

lemma owned_params:
  "owned s m \<Longrightarrow> extends s s' \<Longrightarrow> c \<in> set (all_colls m) \<Longrightarrow> a \<in> set (colls s c) \<Longrightarrow>
   params s' a = params s a"
  by (auto simp: owned_def extends_def list_all_iff)

lemma owned_param_dicts:
  assumes "owned s m" and "extends s s'" and "c \<in> set (all_colls m)"
  shows "map (param_to_dict s') (colls s' c) = map (param_to_dict s) (colls s c)"
proof -
  have "param_to_dict s' a = param_to_dict s a" if "a \<in> set (colls s c)" for a
    using owned_params [OF assms that] by (simp add: param_to_dict_def)
  then show ?thesis
    using owned_colls [OF assms] by simp
qed

lemma owned_bounds:
  "owned s m \<Longrightarrow> c \<in> set (all_colls m) \<Longrightarrow> c < next_coll s"
  "owned s m \<Longrightarrow> c \<in> set (all_colls m) \<Longrightarrow> a \<in> set (colls s c) \<Longrightarrow> a < next_param s"
  by (auto simp: owned_def list_all_iff)

lemma owned_extends:
  assumes "owned s m" and "extends s s'"
  shows "owned s' m"
  unfolding owned_def list_all_iff
proof (intro ballI conjI)
  fix c assume c: "c \<in> set (all_colls m)"
  have "c < next_coll s" using assms(1) c by (rule owned_bounds)
  moreover have "next_coll s \<le> next_coll s'" using assms(2) by (simp add: extends_def)
  ultimately show "c < next_coll s'" by simp
  fix a assume "a \<in> set (colls s' c)"
  then have "a \<in> set (colls s c)"
    using owned_colls [OF assms c] by simp
  then have "a < next_param s" using assms(1) c by (intro owned_bounds(2))
  moreover have "next_param s \<le> next_param s'" using assms(2) by (simp add: extends_def)
  ultimately show "a < next_param s'" by simp
qed

lemma sky_consistent_extends:
  assumes "owned s m" and "extends s s'" and "sky_consistent s m"
  shows "sky_consistent s' m"
proof (cases m)
  case (Model n b)
  then show ?thesis by simp
next
  case (SkyModel n sp sc c)
  have "colls s' c = colls s c" "colls s' (sm_parameters sp) = colls s (sm_parameters sp)"
    "colls s' (sm_parameters sc) = colls s (sm_parameters sc)"
    using SkyModel by (simp_all add: owned_colls [OF assms(1,2)] all_colls_def)
  then show ?thesis using assms(3) SkyModel by simp
qed

lemma rebuilt_extends:
  assumes "owned s m" and "extends s s'" and "rebuilt s m r"
  shows "rebuilt s' m r"
proof (cases m)
  case (Model n b)
  then show ?thesis using assms(3) by simp
next
  case (SkyModel n sp sc c)
  have "map (param_to_dict s') (colls s' (sm_parameters sp)) =
          map (param_to_dict s) (colls s (sm_parameters sp))"
    "map (param_to_dict s') (colls s' (sm_parameters sc)) =
          map (param_to_dict s) (colls s (sm_parameters sc))"
    using SkyModel by (simp_all add: owned_param_dicts [OF assms(1,2)] all_colls_def)
  then show ?thesis using assms(3) SkyModel by simp
qed

subsection \<open>The model that one composite record builds\<close>

lemma upt_map_nth:
  "map (\<lambda>a. f (xs ! (a - n))) [n ..< n + length xs] = map f xs"
  by (rule nth_equalityI) simp_all

lemma dict_to_skymodel_step:
  assumes d: "dict_to_skymodel E r s = Inr (m, s')" and r: "c_model r = None"
  shows "extends s s'"
    and "owned s' m"
    and "sky_consistent s' m"
    and "rebuilt s' m r"
    and "\<forall>c\<in>set (all_colls m). next_coll s \<le> c"
    and "\<forall>a\<in>set (colls s' (model_parameters m)). next_param s \<le> a"
    and "distinct (all_colls m)"
    and "distinct (colls s' (model_parameters m))"
proof -
  from d obtain sp sc spd scd where
    rs: "c_spatial r = Some spd" "c_spectral r = Some scd"
    and m: "m = SkyModel (c_name r) sp sc (next_coll s + 2)"
    and sp: "sm_parameters sp = next_coll s" and sc: "sm_parameters sc = Suc (next_coll s)"
    and cl: "sm_class sp = md_type spd" "sm_class sc = md_type scd"
    and nc: "next_coll s' = next_coll s + 3"
    and np: "next_param s' = next_param s + length (md_parameters spd) + length (md_parameters scd)"
    and co: "colls s' = (colls s)
       (next_coll s := [next_param s ..< next_param s + length (md_parameters spd)],
        Suc (next_coll s) :=
          [next_param s + length (md_parameters spd) ..<
           next_param s + length (md_parameters spd) + length (md_parameters scd)],
        next_coll s + 2 :=
          [next_param s ..< next_param s + length (md_parameters spd)] @
          [next_param s + length (md_parameters spd) ..<
           next_param s + length (md_parameters spd) + length (md_parameters scd)])"
    and pa: "\<forall>a. params s' a =
       (if next_param s \<le> a \<and> a < next_param s + length (md_parameters spd)
        then mk_param (md_parameters spd ! (a - next_param s))
        else if next_param s + length (md_parameters spd) \<le> a
               \<and> a < next_param s + length (md_parameters spd) + length (md_parameters scd)
        then mk_param (md_parameters scd ! (a - (next_param s + length (md_parameters spd))))
        else params s a)"
    by (rule dict_to_skymodel_result)
  let ?n = "next_param s" and ?k1 = "length (md_parameters spd)" and ?k2 = "length (md_parameters scd)"
  have c0: "colls s' (next_coll s) = [?n ..< ?n + ?k1]"
    and c1: "colls s' (Suc (next_coll s)) = [?n + ?k1 ..< ?n + ?k1 + ?k2]"
    and c2: "colls s' (next_coll s + 2) = [?n ..< ?n + ?k1] @ [?n + ?k1 ..< ?n + ?k1 + ?k2]"
    by (simp_all add: co)
  have c2': "colls s' (Suc (Suc (next_coll s))) = [?n ..< ?n + ?k1] @ [?n + ?k1 ..< ?n + ?k1 + ?k2]"
    using c2 by simp
  have old: "colls s' c = colls s c" if "c < next_coll s" for c
    using that by (simp add: co)
  show "extends s s'"
    using nc np old pa by (simp add: extends_def)
  show "owned s' m"
    by (auto simp: owned_def all_colls_def m sp sc nc np c0 c1 c2' list_all_iff)
  show "sky_consistent s' m"
    by (simp add: m sp sc c0 c1 c2')
  have d0: "map (param_to_dict s') [?n ..< ?n + ?k1] = md_parameters spd"
  proof -
    have "map (param_to_dict s') [?n ..< ?n + ?k1] =
            map (\<lambda>a. md_parameters spd ! (a - ?n)) [?n ..< ?n + ?k1]"
      by (rule map_cong [OF refl]) (simp add: param_to_dict_mk pa)
    also have "\<dots> = md_parameters spd"
      using upt_map_nth [of "\<lambda>x. x" "md_parameters spd" ?n] by simp
    finally show ?thesis .
  qed
  have d1: "map (param_to_dict s') [?n + ?k1 ..< ?n + ?k1 + ?k2] = md_parameters scd"
  proof -
    have "map (param_to_dict s') [?n + ?k1 ..< ?n + ?k1 + ?k2] =
            map (\<lambda>a. md_parameters scd ! (a - (?n + ?k1))) [?n + ?k1 ..< ?n + ?k1 + ?k2]"
      by (rule map_cong [OF refl]) (simp add: param_to_dict_mk pa)
    also have "\<dots> = md_parameters scd"
      using upt_map_nth [of "\<lambda>x. x" "md_parameters scd" "?n + ?k1"] by simp
    finally show ?thesis .
  qed
  show "rebuilt s' m r"
    by (simp add: m r rs cl sp sc c0 c1 d0 d1)
  show "\<forall>c\<in>set (all_colls m). next_coll s \<le> c"
    by (simp add: all_colls_def m sp sc)
  show "\<forall>a\<in>set (colls s' (model_parameters m)). next_param s \<le> a"
    by (auto simp: m c2')
  show "distinct (all_colls m)"
    by (simp add: all_colls_def m sp sc)
  show "distinct (colls s' (model_parameters m))"
    by (auto simp: m c2')
qed

subsection \<open>The models that the loop of \<open>dict_to_models\<close> builds\<close>

lemma built_Nil [simp]: "built s [] []"
  by (simp add: built_def fresh_models_def)

lemma built_step:
  assumes b: "built s ms rs"
    and d: "dict_to_skymodel E r s = Inr (m, s')" and r: "c_model r = None"
  shows "built s' (ms @ [m]) (rs @ [r])"
proof -
  note st = dict_to_skymodel_step [OF d r]
  have ow: "owned s m0" if "m0 \<in> set ms" for m0
    using b that by (simp add: built_def list_all_iff)
  have flat_old: "colls s' (model_parameters m0) = colls s (model_parameters m0)"
    if "m0 \<in> set ms" for m0
    using owned_colls [OF ow [OF that] st(1)] by (simp add: all_colls_def)
  have cat: "concat (map (\<lambda>m. colls s' (model_parameters m)) ms) =
             concat (map (\<lambda>m. colls s (model_parameters m)) ms)"
    using flat_old by (simp cong: map_cong)
  have colls_low: "c < next_coll s" if "c \<in> set (concat (map all_colls ms))" for c
    using that owned_bounds(1) [OF ow] by auto
  have params_low: "a < next_param s"
    if "a \<in> set (concat (map (\<lambda>m. colls s (model_parameters m)) ms))" for a
  proof -
    from that obtain m0 where m0: "m0 \<in> set ms" and a: "a \<in> set (colls s (model_parameters m0))"
      by auto
    show ?thesis
      by (rule owned_bounds(2) [OF ow [OF m0] _ a]) (simp add: all_colls_def)
  qed
  have dis1: "set (concat (map all_colls ms)) \<inter> set (all_colls m) = {}"
  proof (rule ccontr)
    assume "set (concat (map all_colls ms)) \<inter> set (all_colls m) \<noteq> {}"
    then obtain c where c1: "c \<in> set (concat (map all_colls ms))" and c2: "c \<in> set (all_colls m)"
      by blast
    from colls_low [OF c1] st(5) c2 show False by fastforce
  qed
  have dis2: "set (concat (map (\<lambda>m. colls s (model_parameters m)) ms))
                \<inter> set (colls s' (model_parameters m)) = {}"
  proof (rule ccontr)
    assume "set (concat (map (\<lambda>m. colls s (model_parameters m)) ms))
                \<inter> set (colls s' (model_parameters m)) \<noteq> {}"
    then obtain a where a1: "a \<in> set (concat (map (\<lambda>m. colls s (model_parameters m)) ms))"
      and a2: "a \<in> set (colls s' (model_parameters m))"
      by blast
    from params_low [OF a1] st(6) a2 show False by fastforce
  qed
  have old1: "distinct (concat (map all_colls ms))"
    and old2: "distinct (concat (map (\<lambda>m. colls s (model_parameters m)) ms))"
    using b by (simp_all add: built_def fresh_models_def)
  have f1: "distinct (concat (map all_colls (ms @ [m])))"
    using old1 st(7) dis1 by simp
  have f2: "distinct (concat (map (\<lambda>m. colls s' (model_parameters m)) (ms @ [m])))"
    using old2 st(8) dis2 by (simp add: cat)
  have o: "list_all (owned s') (ms @ [m])"
    unfolding list_all_iff
  proof
    fix x assume "x \<in> set (ms @ [m])"
    then consider "x \<in> set ms" | "x = m" by auto
    then show "owned s' x"
    proof cases
      case 1
      then show ?thesis by (intro owned_extends [OF ow st(1)])
    next
      case 2
      then show ?thesis using st(2) by simp
    qed
  qed
  have c: "list_all (sky_consistent s') (ms @ [m])"
    unfolding list_all_iff
  proof
    fix x assume "x \<in> set (ms @ [m])"
    then consider "x \<in> set ms" | "x = m" by auto
    then show "sky_consistent s' x"
    proof cases
      case 1
      then have "sky_consistent s x" using b by (simp add: built_def list_all_iff)
      with 1 show ?thesis by (intro sky_consistent_extends [OF ow st(1)])
    next
      case 2
      then show ?thesis using st(3) by simp
    qed
  qed
  have la: "list_all2 (rebuilt s) ms rs"
    using b by (simp add: built_def)
  have "list_all2 (rebuilt s') ms rs"
    unfolding list_all2_conv_all_nth
  proof (intro conjI allI impI)
    show "length ms = length rs" using la by (rule list_all2_lengthD)
    fix i assume i: "i < length ms"
    then have "rebuilt s (ms ! i) (rs ! i)"
      using la by (simp add: list_all2_conv_all_nth)
    moreover have "ms ! i \<in> set ms" using i by simp
    ultimately show "rebuilt s' (ms ! i) (rs ! i)"
      by (intro rebuilt_extends [OF ow st(1)])
  qed
  then have rb: "list_all2 (rebuilt s') (ms @ [m]) (rs @ [r])"
    using st(4) by (simp add: list_all2_appendI)
  show ?thesis
    using f1 f2 o c rb by (simp add: built_def fresh_models_def)
qed

lemma dict_to_models_loop_built:
  "built s ms rs \<Longrightarrow> dict_to_models_loop E data ms s = Inr (ms', s') \<Longrightarrow>
   built s' ms' (rs @ filter (\<lambda>r. c_model r = None) data)"
proof (induction data arbitrary: ms s rs)
  case Nil
  then show ?case by simp
next
  case (Cons r data)
  show ?case
  proof (cases "c_model r")
    case (Some d)
    with Cons.prems(2) have "dict_to_models_loop E data ms s = Inr (ms', s')"
      by (simp split: if_splits)
    from Cons.IH [OF Cons.prems(1) this] Some show ?thesis by simp
  next
    case None
    with Cons.prems(2) obtain m s1 where
      d: "dict_to_skymodel E r s = Inr (m, s1)"
      and l: "dict_to_models_loop E data (ms @ [m]) s1 = Inr (ms', s')"
      by (auto split: sum.splits)
    from Cons.IH [OF built_step [OF Cons.prems(1) d None] l] None
    show ?thesis by simp
  qed
qed

subsection \<open>When a composite record is read without an error\<close>

lemma dict_to_spatial_plain:
  assumes "spatial E type = Some cls"
    and "keyword_params E ps [] = Inr kw" and "init_error cls kw = None"
  shows "dict_to_spatial E (plain_dict type ps) s =
     Inr (\<lparr>sm_class = type, sm_filename = None, sm_table = None,
           sm_parameters = fst (from_dict (plain_dict type ps) s)\<rparr>,
          snd (from_dict (plain_dict type ps) s))"
  using assms
  by (simp add: dict_to_spatial_def plain_dict_def construct_def case_prod_beta)

lemma dict_to_spectral_plain:
  assumes "spectral E type = Some cls"
    and "keyword_params E ps [] = Inr kw" and "init_error cls kw = None"
  shows "dict_to_spectral E (plain_dict type ps) s =
     Inr (\<lparr>sm_class = type, sm_filename = None, sm_table = None,
           sm_parameters = fst (from_dict (plain_dict type ps) s)\<rparr>,
          snd (from_dict (plain_dict type ps) s))"
  using assms
  by (simp add: dict_to_spectral_def plain_dict_def construct_def case_prod_beta)

lemma scenario_read:
  assumes "spatial E ''PointSpatialModel'' = Some cls1"
    and "spectral E ''PowerLawSpectralModel'' = Some cls2"
    and "keyword_params E ps [] = Inr kw1" and "init_error cls1 kw1 = None"
    and "keyword_params E (index_entry fr # rest) [] = Inr kw2" and "init_error cls2 kw2 = None"
  shows "\<exists>m s1. dict_to_skymodel E (hd (scenario ps fr rest)) s = Inr (m, s1)"
  by (simp add: scenario_def dict_to_skymodel_def
      dict_to_spatial_plain [OF assms(1,3,4)] dict_to_spectral_plain [OF assms(2,5,6)]
      new_SkyModel_def case_prod_beta)

text \<open>
  Claim C6. On the components list of the end-to-end scenario, whatever the entries
  that the spec leaves open, \<^verbatim>\<open>dict_to_models\<close> returns exactly one composite model,
  named \<^verbatim>\<open>src\<close>, whose spectral model has the index parameter with value 2 in front;
  the model's own collection holds the same object after the spatial parameters. What
  lies outside the source files is assumed of this one input only: the two classes are
  names of their modules, the unit strings of the entries parse, and each constructor
  accepts the keyword arguments that the comprehension builds from the entries of its
  sub-record.
\<close>

theorem scenario_yields_src:
  assumes "spatial E ''PointSpatialModel'' = Some cls1"
    and "spectral E ''PowerLawSpectralModel'' = Some cls2"
    and "keyword_params E ps [] = Inr kw1" and "init_error cls1 kw1 = None"
    and "keyword_params E (index_entry fr # rest) [] = Inr kw2" and "init_error cls2 kw2 = None"
  shows "\<exists>sp sc c s'.
           dict_to_models E (scenario ps fr rest) True s = Inr ([SkyModel ''src'' sp sc c], s')
           \<and> sm_class sp = ''PointSpatialModel'' \<and> sm_class sc = ''PowerLawSpectralModel''
           \<and> p_name (params s' (colls s' (sm_parameters sc) ! 0)) = ''index''
           \<and> p_value (params s' (colls s' (sm_parameters sc) ! 0)) = Finite 2
           \<and> colls s' c ! length ps = colls s' (sm_parameters sc) ! 0"
proof -
  let ?r = "hd (scenario ps fr rest)"
  let ?spd = "plain_dict ''PointSpatialModel'' ps"
  let ?scd = "plain_dict ''PowerLawSpectralModel'' (index_entry fr # rest)"
  let ?p = "mk_param (index_entry fr)"
  let ?a = "next_param s + length ps"
  obtain m s1 where d: "dict_to_skymodel E ?r s = Inr (m, s1)"
    using scenario_read [OF assms] by blast
  have r: "c_spatial ?r = Some ?spd" "c_spectral ?r = Some ?scd" "c_name ?r = ''src''"
    "c_model ?r = None"
    by (simp_all add: scenario_def)
  from d obtain sp sc spd scd where
    rs: "c_spatial ?r = Some spd" "c_spectral ?r = Some scd"
    and m: "m = SkyModel (c_name ?r) sp sc (next_coll s + 2)"
    and sp: "sm_parameters sp = next_coll s" and sc: "sm_parameters sc = Suc (next_coll s)"
    and cl: "sm_class sp = md_type spd" "sm_class sc = md_type scd"
    and co: "colls s1 = (colls s)
       (next_coll s := [next_param s ..< next_param s + length (md_parameters spd)],
        Suc (next_coll s) :=
          [next_param s + length (md_parameters spd) ..<
           next_param s + length (md_parameters spd) + length (md_parameters scd)],
        next_coll s + 2 :=
          [next_param s ..< next_param s + length (md_parameters spd)] @
          [next_param s + length (md_parameters spd) ..<
           next_param s + length (md_parameters spd) + length (md_parameters scd)])"
    and pa: "\<forall>a. params s1 a =
       (if next_param s \<le> a \<and> a < next_param s + length (md_parameters spd)
        then mk_param (md_parameters spd ! (a - next_param s))
        else if next_param s + length (md_parameters spd) \<le> a
               \<and> a < next_param s + length (md_parameters spd) + length (md_parameters scd)
        then mk_param (md_parameters scd ! (a - (next_param s + length (md_parameters spd))))
        else params s a)"
    by (rule dict_to_skymodel_result)
  have spd: "spd = ?spd" and scd: "scd = ?scd"
    using rs r by simp_all
  have k1: "length (md_parameters spd) = length ps"
    and k2: "md_parameters scd = index_entry fr # rest"
    by (simp_all add: spd scd plain_dict_def)
  have pa': "params s1 ?a = ?p"
    using pa by (simp add: k1 k2)
  have c1: "colls s1 (Suc (next_coll s)) = [?a ..< ?a + Suc (length rest)]"
    by (simp add: co k1 k2)
  have c2: "colls s1 (Suc (Suc (next_coll s))) =
              [next_param s ..< ?a] @ [?a ..< ?a + Suc (length rest)]"
    by (simp add: co k1 k2)
  have clean: "\<not> has_at (p_name ?p)"
    by (simp add: mk_param_def index_entry_def has_at_def)
  have kn: "kept s1 (Suc (next_coll s)) 0 ?a ?p"
    by (simp add: kept_def c1 pa' upt_conv_Cons del: upt_Suc)
  have kf: "kept s1 (Suc (Suc (next_coll s))) (length ps) ?a ?p"
    by (simp add: kept_def c2 pa' nth_append upt_conv_Cons del: upt_Suc)
  let ?s' = "link_shared_parameters [m] s1"
  note kn' = link_shared_parameters_kept [OF kn clean, of "[m]"]
  note kf' = link_shared_parameters_kept [OF kf clean, of "[m]"]
  have res: "dict_to_models E (scenario ps fr rest) True s = Inr ([m], ?s')"
    using d by (simp add: dict_to_models_def scenario_def)
  have "dict_to_models E (scenario ps fr rest) True s =
          Inr ([SkyModel ''src'' sp sc (Suc (Suc (next_coll s)))], ?s')
        \<and> sm_class sp = ''PointSpatialModel'' \<and> sm_class sc = ''PowerLawSpectralModel''
        \<and> p_name (params ?s' (colls ?s' (sm_parameters sc) ! 0)) = ''index''
        \<and> p_value (params ?s' (colls ?s' (sm_parameters sc) ! 0)) = Finite 2
        \<and> colls ?s' (Suc (Suc (next_coll s))) ! length ps = colls ?s' (sm_parameters sc) ! 0"
    using res kn' kf' m r cl
    by (simp add: kept_def sc spd scd plain_dict_def mk_param_def index_entry_def)
  then show ?thesis by blast
qed

lemma point_keywords:
  "keyword_params env_fixed point_entries [] = Inr point_kwargs"
  by (simp add: point_entries_def entry_def env_fixed_def env_ex_def split_at_def point_kwargs_def)

lemma power_law_keywords:
  "keyword_params env_fixed (index_entry False # power_law_rest) [] = Inr power_law_kwargs"
  by (simp add: power_law_rest_def index_entry_def entry_def env_fixed_def env_ex_def
      split_at_def power_law_kwargs_def)

lemma keywords_accepted:
  "init_error point_class point_kwargs = None"
  "init_error power_law_class power_law_kwargs = None"
  by (simp_all add: point_class_def power_law_class_def signature_error_def
      point_kwargs_def power_law_kwargs_def)

text \<open>
  With these classes an entry that is no argument of the power law makes the call of
  the constructor, and so \<^verbatim>\<open>dict_to_models\<close>, raise \<^verbatim>\<open>TypeError\<close>.
\<close>

lemma scenario_unknown_keyword:
  "dict_to_models env_fixed (scenario point_entries False [entry ''bogus'' 1 []]) True s =
     Inl TypeError"
proof -
  have sp: "dict_to_spatial env_fixed (plain_dict ''PointSpatialModel'' point_entries) s =
     Inr (\<lparr>sm_class = ''PointSpatialModel'', sm_filename = None, sm_table = None,
           sm_parameters = fst (from_dict (plain_dict ''PointSpatialModel'' point_entries) s)\<rparr>,
          snd (from_dict (plain_dict ''PointSpatialModel'' point_entries) s))"
    by (rule dict_to_spatial_plain [OF _ point_keywords keywords_accepted(1)])
      (simp add: env_fixed_def)
  have sc: "dict_to_spectral env_fixed
              (plain_dict ''PowerLawSpectralModel'' [index_entry False, entry ''bogus'' 1 []]) s1 =
            Inl TypeError" for s1
    by (simp add: dict_to_spectral_def plain_dict_def construct_def index_entry_def entry_def
        env_fixed_def env_ex_def split_at_def power_law_class_def signature_error_def)
  show ?thesis
    by (simp add: dict_to_models_def scenario_def dict_to_skymodel_def sp sc)
qed

text \<open>
  The theorem of claim C6 for a point source with a power law, in an environment whose
  two classes have the fixed signatures of gammapy.
\<close>

theorem scenario_yields_src_witness:
  "spatial env_fixed ''PointSpatialModel'' = Some point_class
   \<and> spectral env_fixed ''PowerLawSpectralModel'' = Some power_law_class
   \<and> keyword_params env_fixed point_entries [] = Inr point_kwargs
   \<and> init_error point_class point_kwargs = None
   \<and> keyword_params env_fixed (index_entry False # power_law_rest) [] = Inr power_law_kwargs
   \<and> init_error power_law_class power_law_kwargs = None
   \<and> (\<exists>sp sc c s'.
         dict_to_models env_fixed (scenario point_entries False power_law_rest) True
           (store_norm ''norm'') = Inr ([SkyModel ''src'' sp sc c], s')
         \<and> sm_class sp = ''PointSpatialModel'' \<and> sm_class sc = ''PowerLawSpectralModel''
         \<and> p_name (params s' (colls s' (sm_parameters sc) ! 0)) = ''index''
         \<and> p_value (params s' (colls s' (sm_parameters sc) ! 0)) = Finite 2
         \<and> colls s' c ! length point_entries = colls s' (sm_parameters sc) ! 0)"
proof -
  have a: "spatial env_fixed ''PointSpatialModel'' = Some point_class"
    and b: "spectral env_fixed ''PowerLawSpectralModel'' = Some power_law_class"
    by (simp_all add: env_fixed_def)
  from scenario_yields_src [OF a b point_keywords keywords_accepted(1) power_law_keywords
      keywords_accepted(2), of "store_norm ''norm''"]
    a b point_keywords power_law_keywords keywords_accepted
  show ?thesis by simp
qed

subsection \<open>The renaming pass without shared parameters\<close>

lemma scan_params_distinct:
  "distinct (pl @ as) \<Longrightarrow> scan_params as (pl, ps) = (pl @ as, ps)"
proof (induction as arbitrary: pl)
  case Nil
  show ?case by simp
next
  case (Cons a as)
  have "a \<notin> set pl" using Cons.prems by simp
  moreover have "distinct ((pl @ [a]) @ as)" using Cons.prems by simp
  ultimately show ?case using Cons.IH [of "pl @ [a]"] by simp
qed

lemma scan_models_distinct:
  "distinct (pl @ concat (map (\<lambda>m. colls s (model_parameters m)) ms)) \<Longrightarrow>
   scan_models s ms (pl, ps) = (pl @ concat (map (\<lambda>m. colls s (model_parameters m)) ms), ps)"
proof (induction ms arbitrary: pl)
  case Nil
  show ?case by simp
next
  case (Cons m ms)
  let ?as = "colls s (model_parameters m)"
  have "distinct (pl @ ?as)" using Cons.prems by auto
  then have "scan_params ?as (pl, ps) = (pl @ ?as, ps)" by (rule scan_params_distinct)
  moreover have "distinct ((pl @ ?as) @ concat (map (\<lambda>m. colls s (model_parameters m)) ms))"
    using Cons.prems by auto
  ultimately show ?case using Cons.IH [of "pl @ ?as"] by simp
qed

lemma rename_unshared:
  "distinct (concat (map (\<lambda>m. colls s (model_parameters m)) ms)) \<Longrightarrow>
   rename_shared_parameters ms s = s"
  using scan_models_distinct [of "[]" s ms "[]"]
  by (simp add: rename_shared_parameters_def)

subsection \<open>The records of the output\<close>

lemma to_dict_loop_from:
  "to_dict_loop E selection s ms acc = Inr out \<Longrightarrow> d \<in> set out \<Longrightarrow>
   d \<in> set acc \<or> (\<exists>m\<in>set ms. model_to_dict E selection s m = Inr d)"
proof (induction ms arbitrary: acc)
  case Nil
  then show ?case by simp
next
  case (Cons x ms)
  show ?case
  proof (cases "model_to_dict E selection s x")
    case (Inl e)
    with Cons.prems show ?thesis by simp
  next
    case (Inr dx)
    let ?acc = "if \<not> list_ex (\<lambda>e. component_eq e dx) acc then acc @ [dx] else acc"
    have "to_dict_loop E selection s ms ?acc = Inr out"
      using Cons.prems(1) Inr by simp
    from Cons.IH [OF this Cons.prems(2)]
    have "d \<in> set ?acc \<or> (\<exists>m\<in>set ms. model_to_dict E selection s m = Inr d)" .
    then show ?thesis
    proof
      assume "d \<in> set ?acc"
      then have "d \<in> set acc \<or> d = dx" by (auto split: if_splits)
      then show ?thesis using Inr by auto
    next
      assume "\<exists>m\<in>set ms. model_to_dict E selection s m = Inr d"
      then show ?thesis by auto
    qed
  qed
qed

lemma record_of_SkyModel:
  assumes "model_to_dict E selection s (SkyModel n sp sc c) = Inr d"
  shows "c_name d = n" and "c_model d = None"
    and "map_option md_type (c_spatial d) = Some (sm_class sp)"
    and "map_option md_parameters (c_spatial d) =
           Some (map (param_to_dict s) (colls s (sm_parameters sp)))"
    and "map_option md_type (c_spectral d) = Some (sm_class sc)"
    and "map_option md_parameters (c_spectral d) =
           Some (map (param_to_dict s) (colls s (sm_parameters sc)))"
  using assms
  by (auto simp: model_to_dict_SkyModel to_dict_def split: sum.splits option.splits)

lemma record_of_Model:
  assumes "model_to_dict E selection s (Model n b) = Inr d"
  shows "c_model d \<noteq> None"
  using assms
  by (auto simp: model_to_dict_def Let_def split: sum.splits if_splits)

lemma rebuilt_same_content:
  assumes d: "model_to_dict E selection s (SkyModel n sp sc c) = Inr d"
    and co: "sky_consistent s (SkyModel n sp sc c)"
    and rb: "rebuilt s' m' d" and co': "sky_consistent s' m'"
  shows "same_content s (SkyModel n sp sc c) s' m'"
proof (cases m')
  case (Model n' b')
  with rb show ?thesis by simp
next
  case (SkyModel n' sp' sc' c')
  note r = record_of_SkyModel [OF d]
  have a: "map (param_to_dict s') (colls s' (sm_parameters sp')) =
             map (param_to_dict s) (colls s (sm_parameters sp))"
    and b: "map (param_to_dict s') (colls s' (sm_parameters sc')) =
             map (param_to_dict s) (colls s (sm_parameters sc))"
    and cl: "sm_class sp' = sm_class sp" "sm_class sc' = sm_class sc" and n: "n' = n"
    using rb r SkyModel by auto
  have "map (param_to_dict s') (colls s' c') = map (param_to_dict s) (colls s c)"
    using co co' a b SkyModel by simp
  then show ?thesis
    using SkyModel a b cl n by simp
qed

subsection \<open>Round trip\<close>

lemma list_all2_right:
  "list_all2 P xs ys \<Longrightarrow> y \<in> set ys \<Longrightarrow> \<exists>i<length xs. ys ! i = y \<and> P (xs ! i) y"
  by (auto simp: list_all2_conv_all_nth in_set_conv_nth)

lemma list_all2_left:
  "list_all2 P xs ys \<Longrightarrow> x \<in> set xs \<Longrightarrow> \<exists>i<length xs. xs ! i = x \<and> P x (ys ! i)"
  by (auto simp: list_all2_conv_all_nth in_set_conv_nth)

lemma same_content_clean:
  assumes "same_content s m s' m'" and "clean_model s m"
  shows "clean_model s' m'"
proof -
  obtain n sp sc c where m: "m = SkyModel n sp sc c"
    using assms(1) by (cases m) simp_all
  obtain n' sp' sc' c' where m': "m' = SkyModel n' sp' sc' c'"
    using assms(1) m by (cases m') simp_all
  have "map (param_to_dict s') (colls s' c') = map (param_to_dict s) (colls s c)"
    using assms(1) m m' by simp
  then have "map pd_name (map (param_to_dict s') (colls s' c')) =
             map pd_name (map (param_to_dict s) (colls s c))"
    by simp
  then have eq: "map (\<lambda>a. p_name (params s' a)) (colls s' c') =
                 map (\<lambda>a. p_name (params s a)) (colls s c)"
    by (simp add: param_to_dict_def comp_def)
  have "list_all (\<lambda>x. \<not> has_at x) (map (\<lambda>a. p_name (params s a)) (colls s c))"
    using assms(2) m by (simp add: clean_model_def list_all_iff)
  then have "list_all (\<lambda>x. \<not> has_at x) (map (\<lambda>a. p_name (params s' a)) (colls s' c'))"
    using eq by simp
  then show ?thesis
    using m' by (simp add: clean_model_def list_all_iff)
qed

lemma round_trip_forward:
  assumes loop: "to_dict_loop E selection s models [] = Inr data"
    and cons: "list_all (sky_consistent s) models"
    and b: "built t models' (filter (\<lambda>r. c_model r = None) data)"
    and m: "m \<in> set models" "is_sky m"
  shows "\<exists>m'\<in>set models'. same_content s m t m'"
proof -
  obtain n sp sc c where sky: "m = SkyModel n sp sc c"
    using m(2) by (cases m) auto
  obtain d where d: "model_to_dict E selection s m = Inr d" and din: "d \<in> set data"
    using to_dict_loop_member [OF loop m(1)] by blast
  have "c_model d = None"
    using record_of_SkyModel(2) d sky by blast
  then have df: "d \<in> set (filter (\<lambda>r. c_model r = None) data)"
    using din by simp
  have la: "list_all2 (rebuilt t) models' (filter (\<lambda>r. c_model r = None) data)"
    using b by (simp add: built_def)
  from list_all2_right [OF la df]
  obtain i where i: "i < length models'" and rb: "rebuilt t (models' ! i) d"
    by blast
  have c1: "sky_consistent t (models' ! i)"
    using b i by (simp add: built_def list_all_length)
  have "\<forall>x\<in>set models. sky_consistent s x"
    using cons by (simp add: list_all_iff)
  with m(1) have "sky_consistent s m" by blast
  then have c2: "sky_consistent s (SkyModel n sp sc c)"
    using sky by simp
  have d': "model_to_dict E selection s (SkyModel n sp sc c) = Inr d"
    using d sky by simp
  have "same_content s (SkyModel n sp sc c) t (models' ! i)"
    by (rule rebuilt_same_content [OF d' c2 rb c1])
  moreover have "models' ! i \<in> set models'" using i by simp
  ultimately show ?thesis
    using sky by blast
qed

lemma round_trip_backward:
  assumes loop: "to_dict_loop E selection s models [] = Inr data"
    and cons: "list_all (sky_consistent s) models"
    and b: "built t models' (filter (\<lambda>r. c_model r = None) data)"
    and m': "m' \<in> set models'"
  shows "\<exists>m\<in>set models. same_content s m t m'"
proof -
  have la: "list_all2 (rebuilt t) models' (filter (\<lambda>r. c_model r = None) data)"
    using b by (simp add: built_def)
  from list_all2_left [OF la m'] obtain i where
    i: "i < length models'" and rb: "rebuilt t m' (filter (\<lambda>r. c_model r = None) data ! i)"
    by blast
  let ?d = "filter (\<lambda>r. c_model r = None) data ! i"
  have "i < length (filter (\<lambda>r. c_model r = None) data)"
    using i list_all2_lengthD [OF la] by simp
  then have "?d \<in> set (filter (\<lambda>r. c_model r = None) data)"
    by (rule nth_mem)
  then have din: "?d \<in> set data" and none: "c_model ?d = None"
    by simp_all
  from to_dict_loop_from [OF loop din] obtain m where
    m: "m \<in> set models" and d: "model_to_dict E selection s m = Inr ?d"
    by auto
  obtain n sp sc c where sky: "m = SkyModel n sp sc c"
  proof (cases m)
    case (Model n b)
    with record_of_Model [of E selection s n b ?d] d none show ?thesis by simp
  next
    case (SkyModel n sp sc c)
    then show ?thesis by (rule that)
  qed
  have c1: "sky_consistent t m'"
    using b m' by (simp add: built_def list_all_iff)
  have "\<forall>x\<in>set models. sky_consistent s x"
    using cons by (simp add: list_all_iff)
  with m have "sky_consistent s m" by blast
  then have c2: "sky_consistent s (SkyModel n sp sc c)"
    using sky by simp
  have d': "model_to_dict E selection s (SkyModel n sp sc c) = Inr ?d"
    using d sky by simp
  have "same_content s (SkyModel n sp sc c) t m'"
    by (rule rebuilt_same_content [OF d' c2 rb c1])
  then show ?thesis
    using m sky by blast
qed

lemma dict_to_models_parts:
  assumes "dict_to_models E data link s = Inr (models', s')"
  obtains t where "dict_to_models_loop E data [] s = Inr (models', t)"
    and "s' = (if link then link_shared_parameters models' t else t)"
  using assms by (auto simp: dict_to_models_def split: sum.splits)

lemma round_trip_parts:
  assumes "round_trip E models selection s = Inr (models', s')"
  obtains data s1 where "models_to_dict E models selection s = (Inr data, s1)"
    and "dict_to_models E data True s1 = Inr (models', s')"
  using assms
  by (cases "models_to_dict E models selection s")
    (auto simp: round_trip_def split: sum.splits)

text \<open>
  Claim C2, as the code has it. When the cycle returns, for a list in which no parameter
  object occurs twice and no parameter name has the marker \<^verbatim>\<open>@\<close>, every composite
  model of the list has a rebuilt model with the same name, the same spatial and spectral
  types and the same parameter entries (name, value, unit, frozen), in the nested
  collections and in the model's own. A model that is not composite is not rebuilt.
\<close>

theorem round_trip_unshared:
  assumes rt: "round_trip E models selection s = Inr (models', s')"
    and unshared: "distinct (concat (map (\<lambda>m. colls s (model_parameters m)) models))"
    and clean: "list_all (clean_model s) models"
    and cons: "list_all (sky_consistent s) models"
    and m: "m \<in> set models" "is_sky m"
  shows "\<exists>m'\<in>set models'. same_content s m s' m'"
proof -
  from rt obtain data s1 where td: "models_to_dict E models selection s = (Inr data, s1)"
    and dm: "dict_to_models E data True s1 = Inr (models', s')"
    by (rule round_trip_parts)
  have loop: "to_dict_loop E selection s models [] = Inr data"
    using models_to_dict_Inr [OF td] rename_unshared [OF unshared] by simp
  from dm obtain t where l: "dict_to_models_loop E data [] s1 = Inr (models', t)"
    and s': "s' = link_shared_parameters models' t"
    by (rule dict_to_models_parts) simp
  have b: "built t models' (filter (\<lambda>r. c_model r = None) data)"
    using dict_to_models_loop_built [OF built_Nil l] by simp
  have "list_all (clean_model t) models'"
    unfolding list_all_iff
  proof
    fix m' assume "m' \<in> set models'"
    from round_trip_backward [OF loop cons b this] obtain m0 where
      "m0 \<in> set models" and sc: "same_content s m0 t m'" by blast
    then have "clean_model s m0" using clean by (simp add: list_all_iff)
    with sc show "clean_model t m'" by (rule same_content_clean)
  qed
  then have "s' = t"
    using s' by (simp add: link_shared_parameters_clean)
  with round_trip_forward [OF loop cons b m] show ?thesis by simp
qed

subsection \<open>Evaluating the round trip on the two example models\<close>

lemma read_sky_record:
  "dict_to_skymodel env_ex (sky_record n pn v) s =
     Inr (sky n (next_coll s) (Suc (next_coll s)) (Suc (Suc (next_coll s))),
          s\<lparr>params := (params s)
               (next_param s := \<lparr>p_name = pn, p_value = Finite v, p_unit = [], p_frozen = False\<rparr>),
             colls := (colls s)(next_coll s := [], Suc (next_coll s) := [next_param s],
                                Suc (Suc (next_coll s)) := [next_param s]),
             next_param := Suc (next_param s), next_coll := next_coll s + 3\<rparr>)"
  by (simp add: dict_to_skymodel_def dict_to_spatial_def dict_to_spectral_def sky_record_def
      plain_dict_def construct_def env_ex_def any_class_def from_dict_def new_parameter_def
      new_collection_def new_SkyModel_def sky_def sub_def)

lemma sky_record_sel [simp]:
  "c_model (sky_record n pn v) = None" "c_name (sky_record n pn v) = n"
  by (simp_all add: sky_record_def)

lemma loop_sky_record:
  "dict_to_models_loop env_ex (sky_record n pn v # rest) ms s =
     dict_to_models_loop env_ex rest
       (ms @ [sky n (next_coll s) (Suc (next_coll s)) (Suc (Suc (next_coll s)))]) (one_read s pn v)"
  by (simp add: read_sky_record one_read_def)

lemma read_two_records:
  assumes "next_param s = 4" and "next_coll s = 8"
  shows "dict_to_models_loop env_ex [sky_record n1 pn1 v1, sky_record n2 pn2 v2] [] s =
           Inr ([sky n1 8 9 10, sky n2 11 12 13], two_read s pn1 v1 pn2 v2)"
  unfolding loop_sky_record
  using assms by (simp add: one_read_def two_read_def)


lemma two_read_sel:
  "colls (two_read s pn1 v1 pn2 v2) 8 = []" "colls (two_read s pn1 v1 pn2 v2) 9 = [4]"
  "colls (two_read s pn1 v1 pn2 v2) 10 = [4]" "colls (two_read s pn1 v1 pn2 v2) 11 = []"
  "colls (two_read s pn1 v1 pn2 v2) 12 = [5]" "colls (two_read s pn1 v1 pn2 v2) 13 = [5]"
  "params (two_read s pn1 v1 pn2 v2) 4 = \<lparr>p_name = pn1, p_value = Finite v1, p_unit = [], p_frozen = False\<rparr>"
  "params (two_read s pn1 v1 pn2 v2) 5 = \<lparr>p_name = pn2, p_value = Finite v2, p_unit = [], p_frozen = False\<rparr>"
  by (simp_all add: two_read_def)

lemma link_first:
  assumes "has_at pn"
  shows "link_params (sky n1 8 9 10) 0 (two_read s pn v1 pn v2, Map.empty) =
           (set_name 4 (split_at pn) (two_read s pn v1 pn v2), [pn \<mapsto> 4])"
proof -
  let ?t = "two_read s pn v1 pn v2"
  have step: "link_step (sky n1 8 9 10) 0 (?t, Map.empty) = (set_name 4 (split_at pn) ?t, [pn \<mapsto> 4])"
    using assms by (simp add: link_step_def sky_def two_read_sel Let_def)
  have "link_params (sky n1 8 9 10) 0 (?t, Map.empty) =
          link_params (sky n1 8 9 10) (Suc 0) (link_step (sky n1 8 9 10) 0 (?t, Map.empty))"
    by (rule link_params_step) (simp add: sky_def two_read_sel)
  also have "\<dots> = (set_name 4 (split_at pn) ?t, [pn \<mapsto> 4])"
    unfolding step by (rule link_params_done) (simp add: sky_def two_read_sel)
  finally show ?thesis .
qed

lemma link_second:
  assumes "has_at pn"
  shows "link_params (sky n2 11 12 13) 0 (set_name 4 (split_at pn) (two_read s pn v1 pn v2), [pn \<mapsto> 4]) =
           (two_linked s pn v1 v2, [pn \<mapsto> 4])"
proof -
  let ?t = "set_name 4 (split_at pn) (two_read s pn v1 pn v2)"
  have nm: "p_name (params ?t 5) = pn"
    by (simp add: params_set_name two_read_sel)
  have n13: "names ?t 13 = [pn]" and n12: "names ?t 12 = [pn]" and n11: "names ?t 11 = []"
    by (simp_all add: names_def params_set_name two_read_sel)
  have step: "link_step (sky n2 11 12 13) 0 (?t, [pn \<mapsto> 4]) = (two_linked s pn v1 v2, [pn \<mapsto> 4])"
    using assms
    by (simp add: link_step_def sky_def sub_def two_read_sel Let_def nm n13 n12 n11
        names_set_coll_other two_linked_def)
  have "link_params (sky n2 11 12 13) 0 (?t, [pn \<mapsto> 4]) =
          link_params (sky n2 11 12 13) (Suc 0) (link_step (sky n2 11 12 13) 0 (?t, [pn \<mapsto> 4]))"
    by (rule link_params_step) (simp add: sky_def two_read_sel)
  also have "\<dots> = (two_linked s pn v1 v2, [pn \<mapsto> 4])"
    unfolding step
    by (rule link_params_done) (simp add: sky_def two_read_sel two_linked_def colls_set_coll)
  finally show ?thesis .
qed

lemma link_two_marked:
  "has_at pn \<Longrightarrow>
   link_shared_parameters [sky n1 8 9 10, sky n2 11 12 13] (two_read s pn v1 pn v2) =
     two_linked s pn v1 v2"
  by (simp add: link_shared_parameters_def link_first link_second)

lemma two_linked_sel:
  "colls (two_linked s pn v1 v2) 9 = [4]" "colls (two_linked s pn v1 v2) 10 = [4]"
  "colls (two_linked s pn v1 v2) 12 = [4]" "colls (two_linked s pn v1 v2) 13 = [4]"
  "colls (two_linked s pn v1 v2) 8 = []" "colls (two_linked s pn v1 v2) 11 = []"
  "params (two_linked s pn v1 v2) 4 =
     \<lparr>p_name = split_at pn, p_value = Finite v1, p_unit = [], p_frozen = False\<rparr>"
  by (simp_all add: two_linked_def colls_set_coll params_set_name two_read_sel)

lemma next_set_name [simp]:
  "next_param (set_name a n s) = next_param s" "next_coll (set_name a n s) = next_coll s"
  by (simp_all add: set_name_def)

lemma next_restore_params [simp]:
  "next_param (restore_params as s) = next_param s" "next_coll (restore_params as s) = next_coll s"
  by (induction as arbitrary: s) simp_all

lemma next_restore [simp]:
  "next_param (restore_shared_parameters ms s) = next_param s"
  "next_coll (restore_shared_parameters ms s) = next_coll s"
  by (induction ms arbitrary: s) simp_all

lemma sky_store_sel:
  "colls (sky_store pn sh) 2 = []" "colls (sky_store pn sh) 3 = [2]" "colls (sky_store pn sh) 4 = [2]"
  "colls (sky_store pn sh) 5 = []" "colls (sky_store pn sh) 6 = [if sh then 2 else 3]"
  "colls (sky_store pn sh) 7 = [if sh then 2 else 3]"
  "next_param (sky_store pn sh) = 4" "next_coll (sky_store pn sh) = 8"
  "params (sky_store pn sh) 2 = \<lparr>p_name = pn, p_value = Finite 1, p_unit = [], p_frozen = False\<rparr>"
  "params (sky_store pn sh) 3 = \<lparr>p_name = pn, p_value = Finite 2, p_unit = [], p_frozen = False\<rparr>"
  by (simp_all add: sky_store_def)

lemma model_to_dict_sky:
  assumes "colls s c1 = []" and "colls s c2 = [a]"
    and "params s a = \<lparr>p_name = pn, p_value = Finite v, p_unit = [], p_frozen = False\<rparr>"
  shows "model_to_dict env_ex ''all'' s (sky n c1 c2 c3) = Inr (sky_record n pn v)"
  using assms
  by (simp add: sky_def sub_def model_to_dict_SkyModel to_dict_def env_ex_def sky_record_def
      plain_dict_def param_to_dict_def)

lemma sky_record_eq [simp]:
  "component_eq (sky_record n pn v) (sky_record n' pn' v') \<longleftrightarrow> n = n' \<and> pn = pn' \<and> v = v'"
  by (auto simp: sky_record_def plain_dict_def component_eq_def model_dict_eq_def
      param_dict_eq_def)

lemma serialise_unshared_pair:
  "models_to_dict env_ex (sky_pair n1 n2) ''all'' (sky_store pn False) =
     (Inr [sky_record n1 pn 1, sky_record n2 pn 2],
      restore_shared_parameters (sky_pair n1 n2) (sky_store pn False))"
proof -
  have r: "rename_shared_parameters (sky_pair n1 n2) (sky_store pn False) = sky_store pn False"
    by (rule rename_unshared) (simp add: sky_pair_def sky_def sky_store_sel)
  have a: "model_to_dict env_ex ''all'' (sky_store pn False) (sky n1 2 3 4) = Inr (sky_record n1 pn 1)"
    by (rule model_to_dict_sky [where a = 2]) (simp_all add: sky_store_sel)
  have b: "model_to_dict env_ex ''all'' (sky_store pn False) (sky n2 5 6 7) = Inr (sky_record n2 pn 2)"
    by (rule model_to_dict_sky [where a = 3]) (simp_all add: sky_store_sel)
  show ?thesis
    by (simp add: models_to_dict_def r Let_def) (simp add: sky_pair_def a b)
qed

lemma dict_to_models_two:
  assumes "next_param s = 4" and "next_coll s = 8"
  shows "dict_to_models env_ex [sky_record n1 pn1 v1, sky_record n2 pn2 v2] True s =
     Inr ([sky n1 8 9 10, sky n2 11 12 13],
          link_shared_parameters [sky n1 8 9 10, sky n2 11 12 13] (two_read s pn1 v1 pn2 v2))"
  unfolding dict_to_models_def read_two_records [OF assms] by simp

lemma round_trip_unshared_pair:
  "round_trip env_ex (sky_pair n1 n2) ''all'' (sky_store pn False) =
     Inr ([sky n1 8 9 10, sky n2 11 12 13],
          link_shared_parameters [sky n1 8 9 10, sky n2 11 12 13]
            (two_read (restore_shared_parameters (sky_pair n1 n2) (sky_store pn False)) pn 1 pn 2))"
proof -
  let ?s1 = "restore_shared_parameters (sky_pair n1 n2) (sky_store pn False)"
  have "next_param ?s1 = 4" "next_coll ?s1 = 8"
    by (simp_all add: sky_store_sel)
  from dict_to_models_two [OF this] show ?thesis
    unfolding round_trip_def serialise_unshared_pair by simp
qed

lemma sky_pair_facts:
  "distinct (concat (map (\<lambda>m. colls (sky_store pn False) (model_parameters m)) (sky_pair n1 n2)))"
  "list_all (sky_consistent (sky_store pn sh)) (sky_pair n1 n2)"
  "\<not> has_at pn \<Longrightarrow> list_all (clean_model (sky_store pn sh)) (sky_pair n1 n2)"
  "is_sky (sky n c1 c2 c3)"
  by (simp_all add: sky_pair_def sky_def sub_def sky_store_sel clean_model_def)

text \<open>The theorem of claim C2 at two composite models with one parameter each.\<close>

theorem round_trip_unshared_witness:
  "map_sum id fst (round_trip env_ex (sky_pair ''m1'' ''m2'') ''all'' (sky_store ''index'' False))
     = Inr [sky ''m1'' 8 9 10, sky ''m2'' 11 12 13]
   \<and> distinct (concat (map (\<lambda>m. colls (sky_store ''index'' False) (model_parameters m))
                   (sky_pair ''m1'' ''m2'')))
   \<and> list_all (clean_model (sky_store ''index'' False)) (sky_pair ''m1'' ''m2'')
   \<and> list_all (sky_consistent (sky_store ''index'' False)) (sky_pair ''m1'' ''m2'')
   \<and> is_sky (sky ''m1'' 2 3 4)
   \<and> (\<exists>m'\<in>set [sky ''m1'' 8 9 10, sky ''m2'' 11 12 13].
         same_content (sky_store ''index'' False) (sky ''m1'' 2 3 4)
           (snd (projr (round_trip env_ex (sky_pair ''m1'' ''m2'') ''all''
                          (sky_store ''index'' False)))) m')"
proof -
  have cl: "\<not> has_at ''index''" by (simp add: has_at_def)
  have m: "sky ''m1'' 2 3 4 \<in> set (sky_pair ''m1'' ''m2'')"
    by (simp add: sky_pair_def)
  note rt = round_trip_unshared_pair [of "''m1''" "''m2''" "''index''"]
  from round_trip_unshared [OF rt sky_pair_facts(1) sky_pair_facts(3) [OF cl]
      sky_pair_facts(2) m sky_pair_facts(4)]
  show ?thesis
    using sky_pair_facts(1) [of "''index''" "''m1''" "''m2''"]
      sky_pair_facts(2) [of "''index''" False "''m1''" "''m2''"]
      sky_pair_facts(3) [OF cl, of False "''m1''" "''m2''"] sky_pair_facts(4)
    by (simp add: rt)
qed

lemma round_trip_background:
  "round_trip env_ex [Model (Some n) (bkg_body 0)] ''all'' (store_norm pn) =
     Inr ([], restore_shared_parameters [Model (Some n) (bkg_body 0)] (store_norm pn))"
proof -
  have r: "rename_shared_parameters [Model (Some n) (bkg_body 0)] (store_norm pn) = store_norm pn"
    by (simp add: rename_shared_parameters_def store_norm_def bkg_body_def)
  have d: "model_to_dict env_ex ''all'' (store_norm pn) (Model (Some n) (bkg_body 0)) =
             Inr (bkg_record n pn)"
    by (simp add: model_to_dict_Model bkg_class to_dict_bkg_all)
      (simp add: bkg_record_def bkg_body_def store_norm_def param_to_dict_def)
  have td: "models_to_dict env_ex [Model (Some n) (bkg_body 0)] ''all'' (store_norm pn) =
              (Inr [bkg_record n pn],
               restore_shared_parameters [Model (Some n) (bkg_body 0)] (store_norm pn))"
    by (simp add: models_to_dict_def r Let_def d)
  show ?thesis
    unfolding round_trip_def td
    by (simp add: dict_to_models_def bkg_record_def link_shared_parameters_def)
qed

text \<open>
  Claim C2 as stated fails. A background model of the list is written as a record with
  the key \<^verbatim>\<open>"model"\<close>, which \<^verbatim>\<open>dict_to_models\<close> passes over: nothing is rebuilt for it.
  And two composite models whose parameters, not shared, both have the name
  \<^verbatim>\<open>a@b\<close> are linked by the name: the second rebuilt model holds the first model's
  parameter, with value 1 where the original has value 2.
\<close>

theorem round_trip_counterexample:
  "map_sum id fst (round_trip env_ex [Model (Some ''bkg1'') (bkg_body 0)] ''all''
      (store_norm ''norm'')) = Inr []
   \<and> distinct (concat (map (\<lambda>m. colls (sky_store ''a@b'' False) (model_parameters m))
                   (sky_pair ''m1'' ''m2'')))
   \<and> map_sum id fst (round_trip env_ex (sky_pair ''m1'' ''m2'') ''all'' (sky_store ''a@b'' False))
       = Inr [sky ''m1'' 8 9 10, sky ''m2'' 11 12 13]
   \<and> entries_of ([], sky_store ''a@b'' False) 6 =
       [\<lparr>pd_name = ''a@b'', pd_value = Finite 2, pd_unit = [], pd_frozen = False\<rparr>]
   \<and> entries_of (projr (round_trip env_ex (sky_pair ''m1'' ''m2'') ''all''
                           (sky_store ''a@b'' False))) 12 =
       [\<lparr>pd_name = ''a'', pd_value = Finite 1, pd_unit = [], pd_frozen = False\<rparr>]"
proof -
  have m: "has_at ''a@b''" by (simp add: has_at_def)
  have sp: "split_at ''a@b'' = ''a''" by (simp add: split_at_def)
  show ?thesis
    by (simp add: round_trip_background round_trip_unshared_pair link_two_marked [OF m]
        sky_pair_facts(1) entries_of_def two_linked_sel sky_store_sel param_to_dict_def sp)
qed

subsection \<open>Models that share no collection and no parameter object\<close>

lemma concat_map_distinct:
  "distinct (concat (map f xs)) \<Longrightarrow> x \<in> set xs \<Longrightarrow> distinct (f x)"
  by (induction xs) auto

lemma concat_map_disjoint:
  "distinct (concat (map f xs)) \<Longrightarrow> x \<in> set xs \<Longrightarrow> y \<in> set xs \<Longrightarrow> x \<noteq> y \<Longrightarrow>
   set (f x) \<inter> set (f y) = {}"
proof (induction xs)
  case Nil
  then show ?case by simp
next
  case (Cons z zs)
  have d: "distinct (concat (map f zs))" and dz: "set (f z) \<inter> (\<Union>w\<in>set zs. set (f w)) = {}"
    using Cons.prems(1) by simp_all
  consider "x = z" "y \<in> set zs" | "x \<in> set zs" "y = z" | "x \<in> set zs" "y \<in> set zs"
    using Cons.prems(2,3,4) by auto
  then show ?case
  proof cases
    case 1
    with dz show ?thesis by blast
  next
    case 2
    with dz show ?thesis by blast
  next
    case 3
    then show ?thesis using Cons.IH [OF d] Cons.prems(4) by simp
  qed
qed

lemma fresh_distinct_models:
  "fresh_models s ms \<Longrightarrow> distinct ms"
proof (induction ms)
  case Nil
  show ?case by simp
next
  case (Cons m ms)
  have d: "distinct (all_colls m @ concat (map all_colls ms))"
    using Cons.prems by (simp add: fresh_models_def)
  have "m \<notin> set ms"
  proof
    assume "m \<in> set ms"
    then have "model_parameters m \<in> set (concat (map all_colls ms))"
      by (auto simp: all_colls_def)
    moreover have "model_parameters m \<in> set (all_colls m)"
      by (simp add: all_colls_def)
    ultimately show False using d by auto
  qed
  moreover have "fresh_models s ms"
    using Cons.prems by (simp add: fresh_models_def)
  ultimately show ?case using Cons.IH by simp
qed

lemma fresh_colls_disjoint:
  assumes "fresh_models s ms" and "m \<in> set ms" and "m' \<in> set ms" and "m \<noteq> m'"
  shows "set (all_colls m) \<inter> set (all_colls m') = {}"
  using assms by (intro concat_map_disjoint) (simp_all add: fresh_models_def)

lemma fresh_params_disjoint:
  assumes "fresh_models s ms" and "m \<in> set ms" and "m' \<in> set ms" and "m \<noteq> m'"
  shows "set (colls s (model_parameters m)) \<inter> set (colls s (model_parameters m')) = {}"
  using concat_map_disjoint [of "\<lambda>m. colls s (model_parameters m)" ms m m'] assms
  by (simp add: fresh_models_def)

lemma fresh_flat_not_nested:
  assumes "fresh_models s ms" and "m \<in> set ms" and "m' \<in> set ms"
  shows "model_parameters m' \<notin> set (nested m)"
proof (cases "m = m'")
  case True
  have "distinct (all_colls m)"
    using assms(1,2) concat_map_distinct [of all_colls ms m] by (simp add: fresh_models_def)
  then show ?thesis using True by (simp add: all_colls_def)
next
  case False
  from fresh_colls_disjoint [OF assms(1,2,3) False] show ?thesis
    by (auto simp: all_colls_def)
qed

lemma fresh_flat_differ:
  assumes "fresh_models s ms" and "m \<in> set ms" and "m' \<in> set ms" and "m \<noteq> m'"
  shows "model_parameters m \<noteq> model_parameters m'"
  using fresh_colls_disjoint [OF assms] by (auto simp: all_colls_def)

lemma fresh_objects_differ:
  assumes f: "fresh_models s ms" and m: "m \<in> set ms" and m': "m' \<in> set ms"
    and i: "i < length (colls s (model_parameters m))"
    and i': "i' < length (colls s (model_parameters m'))"
    and ne: "(m, i) \<noteq> (m', i')"
  shows "colls s (model_parameters m) ! i \<noteq> colls s (model_parameters m') ! i'"
proof (cases "m = m'")
  case True
  have "distinct (colls s (model_parameters m))"
    using f m concat_map_distinct [of "\<lambda>m. colls s (model_parameters m)" ms m]
    by (simp add: fresh_models_def)
  moreover have "i \<noteq> i'" using ne True by simp
  ultimately show ?thesis
    using i i' True by (simp add: nth_eq_iff_index_eq)
next
  case False
  have "colls s (model_parameters m) ! i \<in> set (colls s (model_parameters m))"
    using i by simp
  moreover have "colls s (model_parameters m') ! i' \<in> set (colls s (model_parameters m'))"
    using i' by simp
  ultimately show ?thesis
    using fresh_params_disjoint [OF f m m' False] by auto
qed

subsection \<open>The invariant of the linking pass\<close>

lemma link_inv_len:
  "link_inv s0 ms D st \<Longrightarrow> length (colls (fst st) c) = length (colls s0 c)"
  by (simp add: link_inv_def)

lemma link_inv_reg:
  "link_inv s0 ms D st \<Longrightarrow> snd st n = Some a \<Longrightarrow> \<not> has_at (p_name (params (fst st) a))"
  by (simp add: link_inv_def)

lemma link_inv_done:
  assumes "link_inv s0 ms D st" and "m \<in> set ms" and "i < length (colls s0 (model_parameters m))"
    and "(m, i) \<in> D" and "has_at (cur_name m i s0)"
  shows "snd st (cur_name m i s0) = Some (colls (fst st) (model_parameters m) ! i)"
proof -
  have "\<forall>m\<in>set ms. \<forall>i<length (colls s0 (model_parameters m)).
        if (m, i) \<in> D \<and> has_at (cur_name m i s0)
        then snd st (cur_name m i s0) = Some (colls (fst st) (model_parameters m) ! i)
        else colls (fst st) (model_parameters m) ! i = colls s0 (model_parameters m) ! i
             \<and> cur_name m i (fst st) = cur_name m i s0"
    using assms(1) by (simp add: link_inv_def)
  then have "if (m, i) \<in> D \<and> has_at (cur_name m i s0)
        then snd st (cur_name m i s0) = Some (colls (fst st) (model_parameters m) ! i)
        else colls (fst st) (model_parameters m) ! i = colls s0 (model_parameters m) ! i
             \<and> cur_name m i (fst st) = cur_name m i s0"
    using assms(2,3) by blast
  then show ?thesis using assms(4,5) by simp
qed

lemma link_inv_same:
  assumes "link_inv s0 ms D st" and "m \<in> set ms" and "i < length (colls s0 (model_parameters m))"
    and "(m, i) \<notin> D \<or> \<not> has_at (cur_name m i s0)"
  shows "colls (fst st) (model_parameters m) ! i = colls s0 (model_parameters m) ! i"
    and "cur_name m i (fst st) = cur_name m i s0"
proof -
  have "\<forall>m\<in>set ms. \<forall>i<length (colls s0 (model_parameters m)).
        if (m, i) \<in> D \<and> has_at (cur_name m i s0)
        then snd st (cur_name m i s0) = Some (colls (fst st) (model_parameters m) ! i)
        else colls (fst st) (model_parameters m) ! i = colls s0 (model_parameters m) ! i
             \<and> cur_name m i (fst st) = cur_name m i s0"
    using assms(1) by (simp add: link_inv_def)
  then have "if (m, i) \<in> D \<and> has_at (cur_name m i s0)
        then snd st (cur_name m i s0) = Some (colls (fst st) (model_parameters m) ! i)
        else colls (fst st) (model_parameters m) ! i = colls s0 (model_parameters m) ! i
             \<and> cur_name m i (fst st) = cur_name m i s0"
    using assms(2,3) by blast
  then show "colls (fst st) (model_parameters m) ! i = colls s0 (model_parameters m) ! i"
    and "cur_name m i (fst st) = cur_name m i s0"
    using assms(4) by auto
qed

lemma link_invI:
  assumes "\<And>c. length (colls (fst st) c) = length (colls s0 c)"
    and "\<And>n a. snd st n = Some a \<Longrightarrow> \<not> has_at (p_name (params (fst st) a))"
    and "\<And>m i. m \<in> set ms \<Longrightarrow> i < length (colls s0 (model_parameters m)) \<Longrightarrow>
           (m, i) \<in> D \<Longrightarrow> has_at (cur_name m i s0) \<Longrightarrow>
           snd st (cur_name m i s0) = Some (colls (fst st) (model_parameters m) ! i)"
    and "\<And>m i. m \<in> set ms \<Longrightarrow> i < length (colls s0 (model_parameters m)) \<Longrightarrow>
           (m, i) \<notin> D \<or> \<not> has_at (cur_name m i s0) \<Longrightarrow>
           colls (fst st) (model_parameters m) ! i = colls s0 (model_parameters m) ! i
           \<and> cur_name m i (fst st) = cur_name m i s0"
  shows "link_inv s0 ms D st"
  unfolding link_inv_def
proof (intro conjI allI ballI impI)
  fix c show "length (colls (fst st) c) = length (colls s0 c)" by (rule assms(1))
next
  fix n a assume "snd st n = Some a"
  then show "\<not> has_at (p_name (params (fst st) a))" by (rule assms(2))
next
  fix m i assume m: "m \<in> set ms" and i: "i < length (colls s0 (model_parameters m))"
  show "if (m, i) \<in> D \<and> has_at (cur_name m i s0)
        then snd st (cur_name m i s0) = Some (colls (fst st) (model_parameters m) ! i)
        else colls (fst st) (model_parameters m) ! i = colls s0 (model_parameters m) ! i
             \<and> cur_name m i (fst st) = cur_name m i s0"
  proof (cases "(m, i) \<in> D \<and> has_at (cur_name m i s0)")
    case True
    then show ?thesis using assms(3) [OF m i] by simp
  next
    case False
    then have "(m, i) \<notin> D \<or> \<not> has_at (cur_name m i s0)" by simp
    from assms(4) [OF m i this] False show ?thesis by auto
  qed
qed

lemma link_inv_start: "link_inv s ms {} (s, Map.empty)"
  by (rule link_invI) simp_all

lemma link_step_inv:
  assumes inv: "link_inv s0 ms D st" and f: "fresh_models s0 ms" and m: "m \<in> set ms"
    and i: "i < length (colls s0 (model_parameters m))" and nd: "(m, i) \<notin> D"
    and below: "\<And>k. k < i \<Longrightarrow> (m, k) \<in> D"
  shows "link_inv s0 ms (insert (m, i) D) (link_step m i st)"
proof -
  let ?s = "fst st" and ?reg = "snd st" and ?c = "model_parameters m"
  let ?a0 = "colls s0 ?c ! i" and ?n0 = "cur_name m i s0"
  let ?st' = "link_step m i st"
  have cur: "colls ?s ?c ! i = ?a0" "cur_name m i ?s = ?n0"
    using link_inv_same [OF inv m i] nd by simp_all
  have len: "length (colls ?s c) = length (colls s0 c)" for c
    by (rule link_inv_len [OF inv])
  have flat: "model_parameters m' \<notin> set (nested m)" if "m' \<in> set ms" for m'
    by (rule fresh_flat_not_nested [OF f m that])
  show ?thesis
  proof (cases "has_at ?n0")
    case False
    then have st': "?st' = st" using cur(2) by (simp add: link_step_clean)
    show ?thesis
      unfolding st'
    proof (rule link_invI)
      fix c show "length (colls ?s c) = length (colls s0 c)" by (rule len)
    next
      fix n a assume "?reg n = Some a"
      then show "\<not> has_at (p_name (params ?s a))" by (rule link_inv_reg [OF inv])
    next
      fix m' i' assume m': "m' \<in> set ms" and i': "i' < length (colls s0 (model_parameters m'))"
        and d: "(m', i') \<in> insert (m, i) D" and h: "has_at (cur_name m' i' s0)"
      have "(m', i') \<noteq> (m, i)" using h False by auto
      then have "(m', i') \<in> D" using d by blast
      then show "?reg (cur_name m' i' s0) = Some (colls ?s (model_parameters m') ! i')"
        using h by (intro link_inv_done [OF inv m' i'])
    next
      fix m' i' assume m': "m' \<in> set ms" and i': "i' < length (colls s0 (model_parameters m'))"
        and d: "(m', i') \<notin> insert (m, i) D \<or> \<not> has_at (cur_name m' i' s0)"
      then have "(m', i') \<notin> D \<or> \<not> has_at (cur_name m' i' s0)" by auto
      from link_inv_same [OF inv m' i' this]
      show "colls ?s (model_parameters m') ! i' = colls s0 (model_parameters m') ! i'
            \<and> cur_name m' i' ?s = cur_name m' i' s0" by simp
    qed
  next
    case True
    note marked = this
    have marked': "has_at (cur_name m i ?s)" using marked cur(2) by simp
    show ?thesis
    proof (cases "?reg ?n0")
      case None
      have reg': "snd ?st' = ?reg(?n0 \<mapsto> ?a0)"
        using None marked' cur by (simp add: link_step_register)
      have par': "params (fst ?st') = params (set_name ?a0 (split_at ?n0) ?s)"
        using None marked' cur by (simp add: link_step_params)
      have col': "colls (fst ?st') (model_parameters m') = colls ?s (model_parameters m')"
        if "m' \<in> set ms" for m'
        using None marked' cur flat [OF that] by (simp add: link_step_colls)
      show ?thesis
      proof (rule link_invI)
        fix c show "length (colls (fst ?st') c) = length (colls s0 c)" by (simp add: len)
      next
        fix n a assume r: "snd ?st' n = Some a"
        show "\<not> has_at (p_name (params (fst ?st') a))"
        proof (cases "a = ?a0")
          case True
          then show ?thesis by (simp add: par' params_set_name)
        next
          case False
          then have "?reg n = Some a" using r reg' by (auto split: if_splits)
          then have "\<not> has_at (p_name (params ?s a))" by (rule link_inv_reg [OF inv])
          then show ?thesis using False by (simp add: par' params_set_name)
        qed
      next
        fix m' i' assume m': "m' \<in> set ms" and i': "i' < length (colls s0 (model_parameters m'))"
          and d: "(m', i') \<in> insert (m, i) D" and h: "has_at (cur_name m' i' s0)"
        show "snd ?st' (cur_name m' i' s0) = Some (colls (fst ?st') (model_parameters m') ! i')"
        proof (cases "(m', i') = (m, i)")
          case True
          then show ?thesis using cur(1) by (simp add: reg' col' [OF m])
        next
          case False
          then have "(m', i') \<in> D" using d by blast
          from link_inv_done [OF inv m' i' this h]
          have old: "?reg (cur_name m' i' s0) = Some (colls ?s (model_parameters m') ! i')" .
          then have "cur_name m' i' s0 \<noteq> ?n0" using None by auto
          then show ?thesis using old by (simp add: reg' col' [OF m'])
        qed
      next
        fix m' i' assume m': "m' \<in> set ms" and i': "i' < length (colls s0 (model_parameters m'))"
          and d: "(m', i') \<notin> insert (m, i) D \<or> \<not> has_at (cur_name m' i' s0)"
        have ne: "(m', i') \<noteq> (m, i)" using d marked by auto
        have "(m', i') \<notin> D \<or> \<not> has_at (cur_name m' i' s0)" using d by auto
        note old = link_inv_same [OF inv m' i' this]
        have "colls s0 (model_parameters m') ! i' \<noteq> ?a0"
          by (rule fresh_objects_differ [OF f m' m i' i ne])
        then have "cur_name m' i' (fst ?st') = cur_name m' i' ?s"
          using old(1) by (simp add: cur_name_def par' col' [OF m'] params_set_name)
        then show "colls (fst ?st') (model_parameters m') ! i' = colls s0 (model_parameters m') ! i'
            \<and> cur_name m' i' (fst ?st') = cur_name m' i' s0"
          using old by (simp add: col' [OF m'])
      qed
    next
      case (Some new)
      have reg': "snd ?st' = ?reg"
        using Some marked' cur by (simp add: link_step_register)
      have par': "params (fst ?st') = params ?s"
        using Some marked' cur by (simp add: link_step_params)
      have ilen: "i < length (names ?s ?c)" using i len by simp
      have at_i: "names ?s ?c ! i = ?n0"
        using ilen cur by (simp add: names_nth cur_name_def)
      have before: "names ?s ?c ! k \<noteq> ?n0" if k: "k < i" for k
      proof -
        have k': "k < length (colls s0 ?c)" using k i by simp
        have kl: "k < length (colls ?s ?c)" using k' len by simp
        have "\<not> has_at (names ?s ?c ! k)"
        proof (cases "has_at (cur_name m k s0)")
          case True
          from link_inv_done [OF inv m k' below [OF k] True]
          have "?reg (cur_name m k s0) = Some (colls ?s ?c ! k)" .
          from link_inv_reg [OF inv this] show ?thesis
            using kl by (simp add: names_nth)
        next
          case False
          then have "cur_name m k ?s = cur_name m k s0"
            using link_inv_same(2) [OF inv m k'] by simp
          then show ?thesis using False kl by (simp add: names_nth cur_name_def)
        qed
        then show ?thesis using marked by auto
      qed
      have ind: "index_of ?n0 (names ?s ?c) = i"
        using ilen at_i before by (rule index_of_first)
      have col': "colls (fst ?st') (model_parameters m') =
                    (if model_parameters m' = ?c then (colls ?s ?c)[i := new]
                     else colls ?s (model_parameters m'))"
        if "m' \<in> set ms" for m'
        using Some marked' cur ind flat [OF that] by (simp add: link_step_colls)
      show ?thesis
      proof (rule link_invI)
        fix c show "length (colls (fst ?st') c) = length (colls s0 c)" by (simp add: len)
      next
        fix n a assume "snd ?st' n = Some a"
        then have "?reg n = Some a" by (simp add: reg')
        then show "\<not> has_at (p_name (params (fst ?st') a))"
          using link_inv_reg [OF inv] by (simp add: par')
      next
        fix m' i' assume m': "m' \<in> set ms" and i': "i' < length (colls s0 (model_parameters m'))"
          and d: "(m', i') \<in> insert (m, i) D" and h: "has_at (cur_name m' i' s0)"
        show "snd ?st' (cur_name m' i' s0) = Some (colls (fst ?st') (model_parameters m') ! i')"
        proof (cases "(m', i') = (m, i)")
          case True
          have "i < length (colls ?s ?c)" using i len by simp
          then show ?thesis using True Some by (simp add: reg' col' [OF m])
        next
          case False
          then have "(m', i') \<in> D" using d by blast
          from link_inv_done [OF inv m' i' this h]
          have old: "?reg (cur_name m' i' s0) = Some (colls ?s (model_parameters m') ! i')" .
          have "colls (fst ?st') (model_parameters m') ! i' = colls ?s (model_parameters m') ! i'"
          proof (cases "m' = m")
            case True
            then have "i' \<noteq> i" using False by simp
            then show ?thesis using True by (simp add: col' [OF m])
          next
            case False
            then have "model_parameters m' \<noteq> ?c"
              by (intro fresh_flat_differ [OF f m' m])
            then show ?thesis by (simp add: col' [OF m'])
          qed
          then show ?thesis using old by (simp add: reg')
        qed
      next
        fix m' i' assume m': "m' \<in> set ms" and i': "i' < length (colls s0 (model_parameters m'))"
          and d: "(m', i') \<notin> insert (m, i) D \<or> \<not> has_at (cur_name m' i' s0)"
        have ne: "(m', i') \<noteq> (m, i)" using d marked by auto
        have "(m', i') \<notin> D \<or> \<not> has_at (cur_name m' i' s0)" using d by auto
        note old = link_inv_same [OF inv m' i' this]
        have same: "colls (fst ?st') (model_parameters m') ! i' = colls ?s (model_parameters m') ! i'"
        proof (cases "m' = m")
          case True
          then have "i' \<noteq> i" using ne by simp
          then show ?thesis using True by (simp add: col' [OF m])
        next
          case False
          then have "model_parameters m' \<noteq> ?c"
            by (intro fresh_flat_differ [OF f m' m])
          then show ?thesis by (simp add: col' [OF m'])
        qed
        then have "cur_name m' i' (fst ?st') = cur_name m' i' ?s"
          by (simp add: cur_name_def par')
        then show "colls (fst ?st') (model_parameters m') ! i' = colls s0 (model_parameters m') ! i'
            \<and> cur_name m' i' (fst ?st') = cur_name m' i' s0"
          using old same by simp
      qed
    qed
  qed
qed

lemma link_params_inv:
  "fresh_models s0 ms \<Longrightarrow> m \<in> set ms \<Longrightarrow> m \<notin> A \<Longrightarrow>
   i \<le> length (colls s0 (model_parameters m)) \<Longrightarrow>
   link_inv s0 ms
     ((SIGMA x:A. {..<length (colls s0 (model_parameters x))}) \<union> {m} \<times> {..<i}) st \<Longrightarrow>
   link_inv s0 ms (SIGMA x:insert m A. {..<length (colls s0 (model_parameters x))})
     (link_params m i st)"
proof (induction m i st rule: link_params.induct)
  case (1 m i st)
  let ?L = "\<lambda>x. {..<length (colls s0 (model_parameters x))}"
  let ?D = "Sigma A ?L \<union> {m} \<times> {..<i}"
  note inv = "1.prems"(5)
  have len: "length (colls (fst st) (model_parameters m)) = length (colls s0 (model_parameters m))"
    by (rule link_inv_len [OF inv])
  show ?case
  proof (cases "i < length (colls s0 (model_parameters m))")
    case True
    have nd: "(m, i) \<notin> ?D" using "1.prems"(3) by auto
    have below: "\<And>k. k < i \<Longrightarrow> (m, k) \<in> ?D" by auto
    have "link_inv s0 ms (insert (m, i) ?D) (link_step m i st)"
      using inv "1.prems"(1,2) True nd below by (rule link_step_inv)
    moreover have "insert (m, i) ?D = Sigma A ?L \<union> {m} \<times> {..<Suc i}"
      by (auto simp: less_Suc_eq)
    ultimately have inv': "link_inv s0 ms (Sigma A ?L \<union> {m} \<times> {..<Suc i}) (link_step m i st)"
      by simp
    have lt: "i < length (colls (fst st) (model_parameters m))" using True len by simp
    have "Suc i \<le> length (colls s0 (model_parameters m))" using True by simp
    from "1.IH" [OF lt "1.prems"(1,2,3) this inv']
    show ?thesis using lt by (simp add: link_params_step)
  next
    case False
    then have i: "i = length (colls s0 (model_parameters m))" using "1.prems"(4) by simp
    have "?D = Sigma (insert m A) ?L" using i by auto
    moreover have "link_params m i st = st"
      using i len by (simp add: link_params_done)
    ultimately show ?thesis using inv by simp
  qed
qed

lemma link_models_inv:
  "fresh_models s0 ms \<Longrightarrow> set xs \<subseteq> set ms \<Longrightarrow> distinct xs \<Longrightarrow> set xs \<inter> A = {} \<Longrightarrow>
   link_inv s0 ms (SIGMA x:A. {..<length (colls s0 (model_parameters x))}) st \<Longrightarrow>
   link_inv s0 ms (SIGMA x:A \<union> set xs. {..<length (colls s0 (model_parameters x))})
     (link_models xs st)"
proof (induction xs arbitrary: A st)
  case Nil
  then show ?case by simp
next
  case (Cons m xs)
  let ?L = "\<lambda>x. {..<length (colls s0 (model_parameters x))}"
  have m: "m \<in> set ms" and nA: "m \<notin> A" using Cons.prems by auto
  have "Sigma A ?L \<union> {m} \<times> {..<0} = Sigma A ?L" by simp
  then have "link_inv s0 ms (Sigma A ?L \<union> {m} \<times> {..<0}) st" using Cons.prems(5) by simp
  with Cons.prems(1) m nA
  have inv: "link_inv s0 ms (Sigma (insert m A) ?L) (link_params m 0 st)"
    by (intro link_params_inv) simp_all
  have "set xs \<subseteq> set ms" "distinct xs" "set xs \<inter> insert m A = {}"
    using Cons.prems by auto
  from Cons.IH [OF Cons.prems(1) this inv]
  have "link_inv s0 ms (Sigma (insert m A \<union> set xs) ?L) (link_models xs (link_params m 0 st))" .
  moreover have "insert m A \<union> set xs = A \<union> set (m # xs)" by auto
  ultimately show ?case by simp
qed

lemma link_shared_inv:
  assumes "fresh_models s ms"
  shows "link_inv s ms (SIGMA x:set ms. {..<length (colls s (model_parameters x))})
           (link_models ms (s, Map.empty))"
proof -
  have "link_inv s ms (SIGMA x:{}. {..<length (colls s (model_parameters x))}) (s, Map.empty)"
    using link_inv_start [of s ms] by simp
  with assms fresh_distinct_models [OF assms]
  have "link_inv s ms (SIGMA x:{} \<union> set ms. {..<length (colls s (model_parameters x))})
           (link_models ms (s, Map.empty))"
    by (intro link_models_inv) simp_all
  then show ?thesis by simp
qed

lemma link_shared_length [simp]:
  "length (colls (link_shared_parameters ms s) c) = length (colls s c)"
proof -
  have "length (colls (fst (link_models xs st)) c) = length (colls (fst st) c)" for xs st
    by (induction xs arbitrary: st) simp_all
  then show ?thesis by (simp add: link_shared_parameters_def)
qed

lemma link_shared_merge:
  assumes f: "fresh_models s ms" and m1: "m1 \<in> set ms" and m2: "m2 \<in> set ms"
    and k: "k < length (colls s (model_parameters m1))"
    and l: "l < length (colls s (model_parameters m2))"
    and marked: "has_at (cur_name m1 k s)" and eq: "cur_name m2 l s = cur_name m1 k s"
  shows "colls (link_shared_parameters ms s) (model_parameters m1) ! k =
         colls (link_shared_parameters ms s) (model_parameters m2) ! l"
proof -
  let ?st = "link_models ms (s, Map.empty)"
  note inv = link_shared_inv [OF f]
  have "snd ?st (cur_name m1 k s) = Some (colls (fst ?st) (model_parameters m1) ! k)"
    using inv m1 k _ marked by (rule link_inv_done) (use m1 k in simp)
  moreover have "snd ?st (cur_name m2 l s) = Some (colls (fst ?st) (model_parameters m2) ! l)"
    using inv m2 l _ by (rule link_inv_done) (use m2 l marked eq in simp_all)
  ultimately show ?thesis using eq by (simp add: link_shared_parameters_def)
qed

subsection \<open>Linking keeps a model's own collection in step with the nested ones\<close>

lemma link_step_other:
  assumes "c \<notin> set (all_colls m)"
  shows "colls (fst (link_step m i st)) c = colls (fst st) c"
proof -
  have "c \<notin> set (nested m)" and "c \<noteq> model_parameters m"
    using assms by (auto simp: all_colls_def)
  then show ?thesis
    by (simp add: link_step_colls split: option.splits)
qed

lemma sky_consistent_cong:
  "(\<And>c. c \<in> set (all_colls m) \<Longrightarrow> colls s' c = colls s c) \<Longrightarrow>
   sky_consistent s' m = sky_consistent s m"
  by (cases m) (simp_all add: all_colls_def)

lemma link_step_consistent_self:
  assumes co: "sky_consistent (fst st) m" and d: "distinct (all_colls m)"
    and i: "i < length (colls (fst st) (model_parameters m))"
  shows "sky_consistent (fst (link_step m i st)) m"
proof (cases m)
  case (Model n b)
  then show ?thesis by simp
next
  case (SkyModel n sp sc c)
  let ?s = "fst st"
  let ?a = "sm_parameters sp" and ?b = "sm_parameters sc"
  let ?name = "p_name (params ?s (colls ?s c ! i))"
  have ne: "c \<noteq> ?a" "c \<noteq> ?b" "?a \<noteq> ?b"
    using d SkyModel by (auto simp: all_colls_def)
  have cc: "colls ?s c = colls ?s ?a @ colls ?s ?b"
    using co SkyModel by simp
  have nn: "names ?s c = names ?s ?a @ names ?s ?b"
    using cc by (simp add: names_def)
  have "names ?s c ! i = ?name" using i SkyModel by (simp add: names_nth)
  moreover have "i < length (names ?s c)" using i SkyModel by simp
  ultimately have mem: "?name \<in> set (names ?s c)" by (metis nth_mem)
  show ?thesis
  proof (cases "has_at ?name")
    case False
    then have "link_step m i st = st"
      using SkyModel by (simp add: link_step_clean cur_name_def)
    then show ?thesis using co by simp
  next
    case True
    show ?thesis
    proof (cases "snd st ?name")
      case None
      then have "fst (link_step m i st) = set_name (colls ?s c ! i) (split_at ?name) ?s"
        using True SkyModel by (simp add: link_step_def Let_def)
      then show ?thesis using cc SkyModel by (simp add: colls_set_name)
    next
      case (Some new)
      let ?ind = "index_of ?name (names ?s c)"
      let ?s1 = "set_coll c ?ind new ?s"
      have na: "names ?s1 ?a = names ?s ?a" and nb: "names ?s1 ?b = names ?s ?b"
        using ne by (simp_all add: names_set_coll_other)
      show ?thesis
      proof (cases "?name \<in> set (names ?s ?a)")
        case inA: True
        have ind: "?ind = index_of ?name (names ?s ?a)"
          using inA by (simp add: nn index_of_append)
        have lt: "?ind < length (colls ?s ?a)"
          using index_of_present [OF inA] ind by simp
        have "fst (link_step m i st) = set_coll ?a ?ind new ?s1"
          using True Some SkyModel inA na ind by (simp add: link_step_def Let_def)
        then show ?thesis
          using SkyModel ne cc lt by (simp add: colls_set_coll list_update_append)
      next
        case notA: False
        then have inB: "?name \<in> set (names ?s ?b)" using mem nn by simp
        have ind: "?ind = length (colls ?s ?a) + index_of ?name (names ?s ?b)"
          using notA by (simp add: nn index_of_append)
        have "fst (link_step m i st) = set_coll ?b (index_of ?name (names ?s ?b)) new ?s1"
          using True Some SkyModel notA inB na nb by (simp add: link_step_def Let_def)
        then show ?thesis
          using SkyModel ne cc ind by (simp add: colls_set_coll list_update_append)
      qed
    qed
  qed
qed

lemma link_step_consistent:
  assumes d: "distinct (concat (map all_colls ms))" and m: "m \<in> set ms"
    and i: "i < length (colls (fst st) (model_parameters m))"
    and co: "list_all (sky_consistent (fst st)) ms"
  shows "list_all (sky_consistent (fst (link_step m i st))) ms"
  unfolding list_all_iff
proof
  fix m' assume m': "m' \<in> set ms"
  have co': "sky_consistent (fst st) m'" using co m' by (simp add: list_all_iff)
  show "sky_consistent (fst (link_step m i st)) m'"
  proof (cases "m' = m")
    case True
    have "distinct (all_colls m)" using d m by (rule concat_map_distinct)
    with co' True i show ?thesis by (simp add: link_step_consistent_self)
  next
    case False
    have dis: "set (all_colls m') \<inter> set (all_colls m) = {}"
      using d m' m False by (rule concat_map_disjoint)
    have "sky_consistent (fst (link_step m i st)) m' = sky_consistent (fst st) m'"
    proof (rule sky_consistent_cong)
      fix c assume "c \<in> set (all_colls m')"
      then have "c \<notin> set (all_colls m)" using dis by blast
      then show "colls (fst (link_step m i st)) c = colls (fst st) c"
        by (rule link_step_other)
    qed
    then show ?thesis using co' by simp
  qed
qed

lemma link_params_consistent:
  "distinct (concat (map all_colls ms)) \<Longrightarrow> m \<in> set ms \<Longrightarrow>
   list_all (sky_consistent (fst st)) ms \<Longrightarrow>
   list_all (sky_consistent (fst (link_params m i st))) ms"
proof (induction m i st rule: link_params.induct)
  case (1 m i st)
  show ?case
  proof (cases "i < length (colls (fst st) (model_parameters m))")
    case True
    have "list_all (sky_consistent (fst (link_step m i st))) ms"
      using "1.prems"(1,2) True "1.prems"(3) by (rule link_step_consistent)
    from "1.IH" [OF True "1.prems"(1,2) this]
    show ?thesis using True by (simp add: link_params_step)
  next
    case False
    then show ?thesis using "1.prems"(3) by (simp add: link_params_done)
  qed
qed

lemma link_models_consistent:
  "distinct (concat (map all_colls ms)) \<Longrightarrow> set xs \<subseteq> set ms \<Longrightarrow>
   list_all (sky_consistent (fst st)) ms \<Longrightarrow>
   list_all (sky_consistent (fst (link_models xs st))) ms"
proof (induction xs arbitrary: st)
  case Nil
  then show ?case by simp
next
  case (Cons m xs)
  have "list_all (sky_consistent (fst (link_params m 0 st))) ms"
    using Cons.prems by (intro link_params_consistent) simp_all
  with Cons.IH [of "link_params m 0 st"] Cons.prems show ?case by simp
qed

lemma link_shared_consistent:
  assumes "fresh_models s ms" and "list_all (sky_consistent s) ms"
  shows "list_all (sky_consistent (link_shared_parameters ms s)) ms"
  using link_models_consistent [of ms ms "(s, Map.empty)"] assms
  by (simp add: link_shared_parameters_def fresh_models_def)

subsection \<open>The renaming pass marks every shared object\<close>

lemma scan_params_listed:
  "set (fst (scan_params as acc)) = set (fst acc) \<union> set as"
  by (induction as acc rule: scan_params.induct) auto

lemma scan_params_mono:
  "set (snd acc) \<subseteq> set (snd (scan_params as acc))"
  by (induction as acc rule: scan_params.induct) auto

lemma scan_params_seen:
  "a \<in> set (fst acc) \<Longrightarrow> a \<in> set as \<Longrightarrow> a \<in> set (snd (scan_params as acc))"
proof (induction as acc rule: scan_params.induct)
  case (1 acc)
  then show ?case by simp
next
  case (2 b as pl ps)
  let ?acc = "if b \<notin> set pl then (pl @ [b], ps)
              else if b \<notin> set ps then (pl, ps @ [b]) else (pl, ps)"
  show ?case
  proof (cases "a = b")
    case True
    then have "a \<in> set (snd ?acc)" using "2.prems"(1) by simp
    then have "a \<in> set (snd (scan_params as ?acc))"
      using scan_params_mono [of ?acc as] by blast
    then show ?thesis by simp
  next
    case False
    then have "a \<in> set as" using "2.prems"(2) by simp
    moreover have "a \<in> set (fst ?acc)" using "2.prems"(1) by simp
    ultimately have "a \<in> set (snd (scan_params as ?acc))" by (rule "2.IH" [rotated])
    then show ?thesis by simp
  qed
qed

lemma scan_params_append:
  "scan_params (as @ bs) acc = scan_params bs (scan_params as acc)"
  by (induction as acc rule: scan_params.induct) simp_all

lemma scan_params_twice:
  assumes "k < l" and "l < length as" and "as ! k = as ! l"
  shows "as ! l \<in> set (snd (scan_params as acc))"
proof -
  let ?a = "as ! l"
  have as: "as = take l as @ drop l as" by simp
  have "take l as ! k = ?a" using assms by simp
  moreover have "k < length (take l as)" using assms by simp
  ultimately have "?a \<in> set (take l as)" by (metis nth_mem)
  then have "?a \<in> set (fst (scan_params (take l as) acc))"
    by (simp add: scan_params_listed)
  moreover have "?a \<in> set (drop l as)"
    using assms(2) by (metis Cons_nth_drop_Suc list.set_intros(1))
  ultimately have "?a \<in> set (snd (scan_params (drop l as) (scan_params (take l as) acc)))"
    by (rule scan_params_seen)
  then show ?thesis
    using scan_params_append [of "take l as" "drop l as" acc] by simp
qed

lemma scan_models_listed:
  "set (fst (scan_models s ms acc)) = set (fst acc) \<union> scanned s ms"
  by (induction ms arbitrary: acc) (auto simp: scanned_def scan_params_listed)

lemma scan_models_mono:
  "set (snd acc) \<subseteq> set (snd (scan_models s ms acc))"
proof (induction ms arbitrary: acc)
  case Nil
  show ?case by simp
next
  case (Cons m ms)
  have "set (snd acc) \<subseteq> set (snd (scan_params (colls s (model_parameters m)) acc))"
    by (rule scan_params_mono)
  also have "\<dots> \<subseteq> set (snd (scan_models s ms (scan_params (colls s (model_parameters m)) acc)))"
    by (rule Cons.IH)
  finally show ?case by simp
qed

lemma scan_models_seen:
  "a \<in> set (fst acc) \<Longrightarrow> a \<in> scanned s ms \<Longrightarrow> a \<in> set (snd (scan_models s ms acc))"
proof (induction ms arbitrary: acc)
  case Nil
  then show ?case by (simp add: scanned_def)
next
  case (Cons m ms)
  let ?acc = "scan_params (colls s (model_parameters m)) acc"
  show ?case
  proof (cases "a \<in> set (colls s (model_parameters m))")
    case True
    with Cons.prems(1) have "a \<in> set (snd ?acc)" by (rule scan_params_seen)
    then have "a \<in> set (snd (scan_models s ms ?acc))"
      using scan_models_mono [of ?acc s ms] by blast
    then show ?thesis by simp
  next
    case False
    then have "a \<in> scanned s ms" using Cons.prems(2) by (simp add: scanned_def)
    moreover have "a \<in> set (fst ?acc)" using Cons.prems(1) by (simp add: scan_params_listed)
    ultimately have "a \<in> set (snd (scan_models s ms ?acc))" by (rule Cons.IH [rotated])
    then show ?thesis by simp
  qed
qed

lemma scan_models_append:
  "scan_models s (xs @ ys) acc = scan_models s ys (scan_models s xs acc)"
  by (induction xs arbitrary: acc) simp_all

text \<open>An object at two positions of one model's collection is in \<^verbatim>\<open>params_shared\<close>.\<close>

lemma scan_models_within:
  assumes i: "i < length ms" and kl: "k < l" and l: "l < length (colls s (model_parameters (ms ! i)))"
    and eq: "colls s (model_parameters (ms ! i)) ! k = colls s (model_parameters (ms ! i)) ! l"
  shows "colls s (model_parameters (ms ! i)) ! l \<in> set (snd (scan_models s ms acc))"
proof -
  let ?as = "colls s (model_parameters (ms ! i))"
  have ms: "ms = take i ms @ ms ! i # drop (Suc i) ms"
    using i by (rule id_take_nth_drop)
  let ?acc = "scan_models s (take i ms) acc"
  have "?as ! l \<in> set (snd (scan_params ?as ?acc))"
    using kl l eq by (rule scan_params_twice)
  then have "?as ! l \<in> set (snd (scan_models s (drop (Suc i) ms) (scan_params ?as ?acc)))"
    using scan_models_mono [of "scan_params ?as ?acc" s "drop (Suc i) ms"] by blast
  moreover have "scan_models s ms acc = scan_models s (drop (Suc i) ms) (scan_params ?as ?acc)"
    by (subst ms) (simp add: scan_models_append)
  ultimately show ?thesis by simp
qed

text \<open>An object in the collections of two models of the list is in \<^verbatim>\<open>params_shared\<close>.\<close>

lemma scan_models_across:
  assumes ij: "i < j" and j: "j < length ms"
    and a1: "a \<in> set (colls s (model_parameters (ms ! i)))"
    and a2: "a \<in> set (colls s (model_parameters (ms ! j)))"
  shows "a \<in> set (snd (scan_models s ms acc))"
proof -
  have ms: "ms = take j ms @ drop j ms" by simp
  have "ms ! i \<in> set (take j ms)"
    using ij j by (metis length_take min.absorb2 less_imp_le nth_mem nth_take)
  then have "a \<in> scanned s (take j ms)"
    using a1 by (auto simp: scanned_def)
  then have "a \<in> set (fst (scan_models s (take j ms) acc))"
    by (simp add: scan_models_listed)
  moreover have "ms ! j \<in> set (drop j ms)"
    using j by (metis Cons_nth_drop_Suc list.set_intros(1))
  then have "a \<in> scanned s (drop j ms)"
    using a2 by (auto simp: scanned_def)
  ultimately have "a \<in> set (snd (scan_models s (drop j ms) (scan_models s (take j ms) acc)))"
    by (rule scan_models_seen)
  then show ?thesis
    using scan_models_append [of s "take j ms" "drop j ms" acc] by simp
qed

lemma has_at_mark [simp]: "has_at (n @ CHR ''@'' # x)"
  by (simp add: has_at_def)

lemma rename_loop_keeps_mark:
  "has_at (p_name (params s b)) \<Longrightarrow> has_at (p_name (params (rename_loop k as s) b))"
proof (induction as arbitrary: k s)
  case Nil
  then show ?case by simp
next
  case (Cons a as)
  have "has_at (p_name (params (set_name a (p_name (params s a) @ ''@shared_'' @ str k) s) b))"
    using Cons.prems by (simp add: params_set_name)
  then show ?case using Cons.IH by simp
qed

lemma rename_loop_marks:
  "b \<in> set as \<Longrightarrow> has_at (p_name (params (rename_loop k as s) b))"
proof (induction as arbitrary: k s)
  case Nil
  then show ?case by simp
next
  case (Cons a as)
  let ?s = "set_name a (p_name (params s a) @ ''@shared_'' @ str k) s"
  show ?case
  proof (cases "b = a")
    case True
    have "has_at (p_name (params ?s b))" using True by (simp add: params_set_name)
    then have "has_at (p_name (params (rename_loop (Suc k) as ?s) b))"
      by (rule rename_loop_keeps_mark)
    then show ?thesis by simp
  next
    case False
    then have "b \<in> set as" using Cons.prems by simp
    then have "has_at (p_name (params (rename_loop (Suc k) as ?s) b))" by (rule Cons.IH)
    then show ?thesis by simp
  qed
qed

lemma colls_rename [simp]: "colls (rename_shared_parameters ms s) = colls s"
  by (simp add: rename_shared_parameters_def)

text \<open>A parameter object at two places of the list of models is renamed with the marker.\<close>

lemma rename_marks_shared:
  assumes i: "i < length ms" and j: "j < length ms"
    and k: "k < length (colls s (model_parameters (ms ! i)))"
    and l: "l < length (colls s (model_parameters (ms ! j)))"
    and ne: "(i, k) \<noteq> (j, l)"
    and eq: "colls s (model_parameters (ms ! i)) ! k = colls s (model_parameters (ms ! j)) ! l"
  shows "has_at (p_name (params (rename_shared_parameters ms s)
                   (colls s (model_parameters (ms ! i)) ! k)))"
proof -
  let ?a = "colls s (model_parameters (ms ! i)) ! k"
  have a1: "?a \<in> set (colls s (model_parameters (ms ! i)))" using k by simp
  have a2: "?a \<in> set (colls s (model_parameters (ms ! j)))" using l eq by simp
  have "?a \<in> set (snd (scan_models s ms ([], [])))"
  proof (cases "i = j")
    case True
    then have kl: "k \<noteq> l" using ne by simp
    have l': "l < length (colls s (model_parameters (ms ! i)))" using l True by simp
    have eq': "colls s (model_parameters (ms ! i)) ! k = colls s (model_parameters (ms ! i)) ! l"
      using eq True by simp
    show ?thesis
    proof (cases "k < l")
      case True
      have "colls s (model_parameters (ms ! i)) ! l \<in> set (snd (scan_models s ms ([], [])))"
        using i True l' eq' by (rule scan_models_within)
      then show ?thesis using eq' by simp
    next
      case False
      then have "l < k" using kl by simp
      from scan_models_within [OF i this k eq' [symmetric]]
      show ?thesis .
    qed
  next
    case False
    show ?thesis
    proof (cases "i < j")
      case True
      then show ?thesis using j a1 a2 by (rule scan_models_across)
    next
      case False
      then have "j < i" using \<open>i \<noteq> j\<close> by simp
      then show ?thesis using i a2 a1 by (rule scan_models_across)
    qed
  qed
  then show ?thesis
    by (simp add: rename_shared_parameters_def rename_loop_marks)
qed

text \<open>The loop of the serialiser when no record is dropped.\<close>

lemma to_dict_loop_shape:
  "to_dict_loop E selection s ms acc = Inr out \<Longrightarrow>
   \<exists>zs. out = acc @ zs \<and> length zs \<le> length ms \<and>
        (length zs = length ms \<longrightarrow>
           list_all2 (\<lambda>m d. model_to_dict E selection s m = Inr d) ms zs)"
proof (induction ms arbitrary: acc)
  case Nil
  then show ?case by simp
next
  case (Cons x ms)
  show ?case
  proof (cases "model_to_dict E selection s x")
    case (Inl e)
    with Cons.prems show ?thesis by simp
  next
    case (Inr dx)
    let ?new = "\<not> list_ex (\<lambda>e. component_eq e dx) acc"
    let ?acc = "if ?new then acc @ [dx] else acc"
    have "to_dict_loop E selection s ms ?acc = Inr out"
      using Cons.prems Inr by simp
    from Cons.IH [OF this] obtain zs where
      out: "out = ?acc @ zs" and le: "length zs \<le> length ms"
      and all: "length zs = length ms \<longrightarrow>
                  list_all2 (\<lambda>m d. model_to_dict E selection s m = Inr d) ms zs"
      by blast
    show ?thesis
    proof (cases ?new)
      case True
      then have "out = acc @ (dx # zs)" using out by simp
      moreover have "length (dx # zs) \<le> length (x # ms)" using le by simp
      moreover have "length (dx # zs) = length (x # ms) \<longrightarrow>
          list_all2 (\<lambda>m d. model_to_dict E selection s m = Inr d) (x # ms) (dx # zs)"
        using all Inr by simp
      ultimately show ?thesis by blast
    next
      case False
      then have "out = acc @ zs" using out by simp
      moreover have "length zs \<le> length (x # ms)" using le by simp
      moreover have "length zs \<noteq> length (x # ms)" using le by simp
      ultimately show ?thesis by blast
    qed
  qed
qed

lemma to_dict_loop_all:
  assumes "to_dict_loop E selection s ms [] = Inr out"
  shows "length out \<le> length ms"
    and "length out = length ms \<Longrightarrow>
         list_all2 (\<lambda>m d. model_to_dict E selection s m = Inr d) ms out"
  using to_dict_loop_shape [OF assms] by auto

lemma filter_all:
  "length (filter P xs) = length xs \<Longrightarrow> filter P xs = xs"
  by (metis filter_True length_filter_less less_irrefl_nat)

subsection \<open>Round trip with shared parameters\<close>

lemma same_content_flat:
  assumes "same_content s m t m'"
  shows "map (param_to_dict t) (colls t (model_parameters m')) =
         map (param_to_dict s) (colls s (model_parameters m))"
proof -
  obtain n sp sc c where m: "m = SkyModel n sp sc c"
    using assms by (cases m) simp_all
  obtain n' sp' sc' c' where m': "m' = SkyModel n' sp' sc' c'"
    using assms m by (cases m') simp_all
  show ?thesis using assms m m' by simp
qed

lemma rebuilt_position:
  assumes sc: "same_content s m t m'" and k: "k < length (colls s (model_parameters m))"
  shows "length (colls t (model_parameters m')) = length (colls s (model_parameters m))"
    and "cur_name m' k t = p_name (params s (colls s (model_parameters m) ! k))"
proof -
  note eq = same_content_flat [OF sc]
  from eq have "length (map (param_to_dict t) (colls t (model_parameters m'))) =
                length (map (param_to_dict s) (colls s (model_parameters m)))"
    by simp
  then show len: "length (colls t (model_parameters m')) = length (colls s (model_parameters m))"
    by simp
  from eq have "map (param_to_dict t) (colls t (model_parameters m')) ! k =
                map (param_to_dict s) (colls s (model_parameters m)) ! k"
    by simp
  then have "param_to_dict t (colls t (model_parameters m') ! k) =
             param_to_dict s (colls s (model_parameters m) ! k)"
    using k len by simp
  then have "pd_name (param_to_dict t (colls t (model_parameters m') ! k)) =
             pd_name (param_to_dict s (colls s (model_parameters m) ! k))"
    by simp
  then show "cur_name m' k t = p_name (params s (colls s (model_parameters m) ! k))"
    by (simp add: cur_name_def param_to_dict_def)
qed

text \<open>
  When the cycle rebuilds as many models as it was given, no record was dropped and every
  model is composite: the model at position \<open>i\<close> of the result is built from the record
  of the model at position \<open>i\<close> of the input, written under the names of the renaming pass.
\<close>

lemma round_trip_positions:
  assumes td: "models_to_dict E models selection s = (Inr data, s1)"
    and l: "dict_to_models_loop E data [] s1 = Inr (models', t)"
    and all: "length models' = length models"
    and cons: "list_all (sky_consistent s) models"
    and i: "i < length models"
  shows "same_content (rename_shared_parameters models s) (models ! i) t (models' ! i)"
proof -
  let ?sr = "rename_shared_parameters models s"
  let ?f = "filter (\<lambda>r. c_model r = None) data"
  have loop: "to_dict_loop E selection ?sr models [] = Inr data"
    by (rule models_to_dict_Inr [OF td])
  have b: "built t models' ?f"
    using dict_to_models_loop_built [OF built_Nil l] by simp
  then have la: "list_all2 (rebuilt t) models' ?f"
    by (simp add: built_def)
  have "length ?f = length models" using list_all2_lengthD [OF la] all by simp
  moreover have "length ?f \<le> length data" by simp
  moreover have "length data \<le> length models" by (rule to_dict_loop_all(1) [OF loop])
  ultimately have fl: "length ?f = length data" and dl: "length data = length models"
    by simp_all
  have f: "?f = data" using fl by (rule filter_all)
  have la2: "list_all2 (\<lambda>m d. model_to_dict E selection ?sr m = Inr d) models data"
    using dl by (rule to_dict_loop_all(2) [OF loop])
  have d: "model_to_dict E selection ?sr (models ! i) = Inr (data ! i)"
    using la2 i by (simp add: list_all2_conv_all_nth)
  have "list_all2 (rebuilt t) models' data" using la f by simp
  then have rb: "rebuilt t (models' ! i) (data ! i)"
    using i all by (simp add: list_all2_conv_all_nth)
  have "data ! i \<in> set data" using i dl by simp
  then have "data ! i \<in> set ?f" using f by simp
  then have none: "c_model (data ! i) = None" by simp
  obtain n sp sc c where sky: "models ! i = SkyModel n sp sc c"
  proof (cases "models ! i")
    case (Model n b)
    with record_of_Model [of E selection ?sr n b "data ! i"] d none show ?thesis by simp
  next
    case (SkyModel n sp sc c)
    then show ?thesis by (rule that)
  qed
  have "sky_consistent s (models ! i)"
    using cons i by (simp add: list_all_length)
  then have c2: "sky_consistent ?sr (SkyModel n sp sc c)"
    using sky by simp
  have c1: "sky_consistent t (models' ! i)"
    using b i all by (simp add: built_def list_all_length)
  have d': "model_to_dict E selection ?sr (SkyModel n sp sc c) = Inr (data ! i)"
    using d sky by simp
  have "same_content ?sr (SkyModel n sp sc c) t (models' ! i)"
    by (rule rebuilt_same_content [OF d' c2 rb c1])
  then show ?thesis using sky by simp
qed


lemma renamed_shared_pair:
  "rename_shared_parameters (sky_pair n1 n2) (sky_store pn True) =
     set_name 2 (pn @ ''@shared_0'') (sky_store pn True)"
  by (simp add: rename_shared_parameters_def sky_pair_def sky_def sky_store_sel str_0)

lemma serialise_shared_pair:
  "models_to_dict env_ex (sky_pair n1 n2) ''all'' (sky_store pn True) =
     (Inr (if n1 = n2 then [sky_record n1 (pn @ ''@shared_0'') 1]
           else [sky_record n1 (pn @ ''@shared_0'') 1, sky_record n2 (pn @ ''@shared_0'') 1]),
      restore_shared_parameters (sky_pair n1 n2)
        (set_name 2 (pn @ ''@shared_0'') (sky_store pn True)))"
proof -
  let ?s = "set_name 2 (pn @ ''@shared_0'') (sky_store pn True)"
  have a: "model_to_dict env_ex ''all'' ?s (sky n 2 3 4) = Inr (sky_record n (pn @ ''@shared_0'') 1)"
    for n
    by (rule model_to_dict_sky [where a = 2])
      (simp_all add: sky_store_sel colls_set_name params_set_name)
  have b: "model_to_dict env_ex ''all'' ?s (sky n 5 6 7) = Inr (sky_record n (pn @ ''@shared_0'') 1)"
    for n
    by (rule model_to_dict_sky [where a = 2])
      (simp_all add: sky_store_sel colls_set_name params_set_name)
  show ?thesis
    by (simp add: models_to_dict_def renamed_shared_pair Let_def)
      (simp add: sky_pair_def a b)
qed

lemma round_trip_shared_pair:
  assumes "n1 \<noteq> n2"
  shows "round_trip env_ex (sky_pair n1 n2) ''all'' (sky_store pn True) =
     Inr ([sky n1 8 9 10, sky n2 11 12 13],
          two_linked (restore_shared_parameters (sky_pair n1 n2)
                        (set_name 2 (pn @ ''@shared_0'') (sky_store pn True)))
            (pn @ ''@shared_0'') 1 1)"
proof -
  let ?s1 = "restore_shared_parameters (sky_pair n1 n2)
               (set_name 2 (pn @ ''@shared_0'') (sky_store pn True))"
  have "next_param ?s1 = 4" "next_coll ?s1 = 8"
    by (simp_all add: sky_store_sel)
  from dict_to_models_two [OF this] show ?thesis
    unfolding round_trip_def serialise_shared_pair
    using assms by (simp add: link_two_marked)
qed

lemma round_trip_same_name:
  "map_sum id fst (round_trip env_ex (sky_pair n n) ''all'' (sky_store pn True)) =
     Inr [sky n 8 9 10]"
  unfolding round_trip_def serialise_shared_pair
  by (simp add: dict_to_models_def read_sky_record sky_store_sel)

lemma round_trip_two_backgrounds:
  "map_sum id fst (round_trip env_ex two_backgrounds ''all'' (store_norm ''norm'')) = Inr []"
  unfolding round_trip_def wit_r
  by (simp add: dict_to_models_def)



end
